theory Spec2Isabelle
  imports Main "HOL-Library.Word" "HOL-Library.Multiset" "HOL-Library.AList"
begin

unbundle bit_operations_syntax

section \<open>Samples\<close>

text \<open>
  Modelled from the spec: the declaration of \<^verbatim>\<open>ingester_client.Sample\<close> is not in
  \<^verbatim>\<open>query.go\<close>, which reads its field \<^verbatim>\<open>TimestampMs\<close> and compares whole samples with
  \<^verbatim>\<open>!=\<close>. By the specification a sample is a millisecond timestamp (an integer, Go
  \<^verbatim>\<open>int64\<close>) and a value (a float, Go \<^verbatim>\<open>float64\<close>). Timestamps are only ever compared, never
  computed with, so they are integers here. A value is kept as its IEEE 754 binary64 bit
  pattern: the only operation the code applies to it is Go's comparison of floats, the
  IEEE one (a NaN is equal to nothing, itself included; the two zeros are equal).
\<close>

type_synonym float64 = "64 word"

definition float64_isNaN :: "float64 \<Rightarrow> bool" where
  "float64_isNaN w = (0x7FF0000000000000 < (w AND 0x7FFFFFFFFFFFFFFF))"

definition float64_isZero :: "float64 \<Rightarrow> bool" where
  "float64_isZero w = ((w AND 0x7FFFFFFFFFFFFFFF) = 0)"

definition float64_eq :: "float64 \<Rightarrow> float64 \<Rightarrow> bool" where
  "float64_eq x y =
     (\<not> float64_isNaN x \<and> \<not> float64_isNaN y \<and> (x = y \<or> (float64_isZero x \<and> float64_isZero y)))"

text \<open>The bit patterns of the values used in the examples below.\<close>

abbreviation f64_1 :: float64 where "f64_1 \<equiv> 0x3FF0000000000000"
abbreviation f64_2 :: float64 where "f64_2 \<equiv> 0x4000000000000000"
abbreviation f64_3 :: float64 where "f64_3 \<equiv> 0x4008000000000000"
abbreviation f64_neg0 :: float64 where "f64_neg0 \<equiv> 0x8000000000000000"
abbreviation f64_StaleNaN :: float64 where "f64_StaleNaN \<equiv> 0x7FF0000000000002"

record Sample =
  Value :: float64
  TimestampMs :: int

abbreviation sample :: "int \<Rightarrow> float64 \<Rightarrow> Sample" where
  "sample t v \<equiv> \<lparr>Value = v, TimestampMs = t\<rparr>"

text \<open>Go's \<^verbatim>\<open>==\<close> on two \<^verbatim>\<open>Sample\<close> structs: field by field.\<close>

definition Sample_eq :: "Sample \<Rightarrow> Sample \<Rightarrow> bool" where
  "Sample_eq x y = (float64_eq (Value x) (Value y) \<and> TimestampMs x = TimestampMs y)"

section \<open>Run-time panics\<close>

datatype panic = IndexOutOfRange | SliceBoundsOutOfRange

text \<open>\<^verbatim>\<open>xs[i]\<close> and \<^verbatim>\<open>xs[i:]\<close>, with the bounds checks of the Go run time.\<close>

definition index :: "'a list \<Rightarrow> nat \<Rightarrow> panic + 'a" where
  "index xs i = (if i < length xs then Inr (xs ! i) else Inl IndexOutOfRange)"

definition slice_from :: "'a list \<Rightarrow> nat \<Rightarrow> panic + 'a list" where
  "slice_from xs i = (if i \<le> length xs then Inr (drop i xs) else Inl SliceBoundsOutOfRange)"

section \<open>sameSamples and mergeSamples\<close>

text \<open>The loop of \<^verbatim>\<open>sameSamples\<close>, from index \<open>i\<close> on.\<close>

function sameSamples_loop :: "Sample list \<Rightarrow> Sample list \<Rightarrow> nat \<Rightarrow> panic + bool" where
  "sameSamples_loop a b i =
     (if i < length a then
        (case index a i of
           Inl e \<Rightarrow> Inl e
         | Inr ai \<Rightarrow>
             (case index b i of
                Inl e \<Rightarrow> Inl e
              | Inr bi \<Rightarrow> if \<not> Sample_eq ai bi then Inr False else sameSamples_loop a b (i + 1)))
      else Inr True)"
  by pat_completeness auto
termination
  by (relation "measure (\<lambda>(a, b, i). length a - i)") auto

definition sameSamples :: "Sample list \<Rightarrow> Sample list \<Rightarrow> panic + bool" where
  "sameSamples a b = (if length a \<noteq> length b then Inr False else sameSamples_loop a b 0)"

text \<open>
  The two-pointer loop of \<^verbatim>\<open>mergeSamples\<close>: the state is \<open>(i, j, result)\<close>, returned as it
  stands when the loop condition fails.
\<close>

function mergeSamples_loop ::
  "Sample list \<Rightarrow> Sample list \<Rightarrow> nat \<Rightarrow> nat \<Rightarrow> Sample list \<Rightarrow> panic + (nat \<times> nat \<times> Sample list)" where
  "mergeSamples_loop a b i j result =
     (if i < length a \<and> j < length b then
        (case index a i of
           Inl e \<Rightarrow> Inl e
         | Inr ai \<Rightarrow>
             (case index b j of
                Inl e \<Rightarrow> Inl e
              | Inr bj \<Rightarrow>
                  if TimestampMs ai < TimestampMs bj then
                    mergeSamples_loop a b (i + 1) j (result @ [ai])
                  else if TimestampMs ai > TimestampMs bj then
                    mergeSamples_loop a b i (j + 1) (result @ [bj])
                  else
                    mergeSamples_loop a b (i + 1) (j + 1) (result @ [ai])))
      else Inr (i, j, result))"
  by pat_completeness auto
termination
  by (relation "measure (\<lambda>(a, b, i, j, result). (length a - i) + (length b - j))") auto

text \<open>
  \<^verbatim>\<open>mergeSamples\<close> with an allocation counter threaded through it: \<open>n\<close> counts the slices
  built by \<^verbatim>\<open>make\<close>. The fast path returns the operand \<open>a\<close> and leaves the counter alone;
  the general path calls \<^verbatim>\<open>make\<close> once, with capacity for every append that follows.
\<close>

definition mergeSamples_counted ::
  "nat \<Rightarrow> Sample list \<Rightarrow> Sample list \<Rightarrow> panic + (Sample list \<times> nat)" where
  "mergeSamples_counted n a b =
     (case sameSamples a b of
        Inl e \<Rightarrow> Inl e
      | Inr same \<Rightarrow>
          if same then Inr (a, n)
          else
            (case mergeSamples_loop a b 0 0 [] of
               Inl e \<Rightarrow> Inl e
             | Inr (i, j, result) \<Rightarrow>
                 (case slice_from a i of
                    Inl e \<Rightarrow> Inl e
                  | Inr ra \<Rightarrow>
                      (case slice_from b j of
                         Inl e \<Rightarrow> Inl e
                       | Inr rb \<Rightarrow> Inr ((result @ ra) @ rb, n + 1)))))"

text \<open>The value \<^verbatim>\<open>mergeSamples\<close> returns.\<close>

definition mergeSamples :: "Sample list \<Rightarrow> Sample list \<Rightarrow> panic + Sample list" where
  "mergeSamples a b = map_sum id fst (mergeSamples_counted 0 a b)"

text \<open>The precondition of the merge: timestamps strictly increasing (so no duplicates).\<close>

definition strictly_increasing :: "Sample list \<Rightarrow> bool" where
  "strictly_increasing xs = sorted_wrt (<) (map TimestampMs xs)"

text \<open>
  A list-recursive description of what the two loops and the two final appends compute;
  it is only a proof device, related to the loops in \<open>mergeSamples_loop_merge_lists\<close>.
\<close>

fun merge_lists :: "Sample list \<Rightarrow> Sample list \<Rightarrow> Sample list" where
  "merge_lists [] ys = ys"
| "merge_lists (x # xs) [] = x # xs"
| "merge_lists (x # xs) (y # ys) =
     (if TimestampMs x < TimestampMs y then x # merge_lists xs (y # ys)
      else if TimestampMs x > TimestampMs y then y # merge_lists (x # xs) ys
      else x # merge_lists xs ys)"

section \<open>Replica selection\<close>

text \<open>
  Modelled from the spec: a matcher of the query (\<^verbatim>\<open>labels.Matcher\<close>) is a label name, one
  of four match types and the value matched against. \<^verbatim>\<open>GetIngestersForQuery\<close> reads the
  type and the value (\<open>MatcherValue\<close> here) and names the type \<^verbatim>\<open>labels.MatchEqual\<close>.
\<close>

datatype MatchType = MatchEqual | MatchNotEqual | MatchRegexp | MatchNotRegexp

record Matcher =
  Type :: MatchType
  Name :: string
  MatcherValue :: string

text \<open>The operation a replication set is asked for; the read path only passes \<^verbatim>\<open>ring.Read\<close>.\<close>

datatype Operation = Read | Write

text \<open>
  The fields of the distributor's configuration that the selection reads. The lookback
  period is a \<^verbatim>\<open>time.Duration\<close> and the shard size a Go \<^verbatim>\<open>int\<close>: signed integers, only
  compared with zero.
\<close>

record Config =
  ShardingStrategy :: string
  ShuffleShardingLookbackPeriod :: int
  ShardByAllLabels :: bool

record Limits =
  IngestionTenantShardSize :: "string \<Rightarrow> int"

record 'ring Distributor =
  cfg :: Config
  limits :: Limits
  ingestersRing :: 'ring

text \<open>
  What \<^verbatim>\<open>GetIngestersForQuery\<close> calls and this file does not define: the tenant
  resolution \<^verbatim>\<open>user.ExtractOrgID\<close>, the constant \<^verbatim>\<open>util.ShardingStrategyShuffle\<close>, the
  methods of the ring, \<^verbatim>\<open>shardByMetricName\<close>, \<^verbatim>\<open>extract.MetricNameMatcherFromMatchers\<close> and
  the clock. They are parameters. \<^verbatim>\<open>MetricNameMatcherFromMatchers\<close> returns a matcher, the
  other matchers and an \<^verbatim>\<open>ok\<close> flag in Go; here \<open>None\<close> is \<^verbatim>\<open>ok == false\<close>.
\<close>

record ('ctx, 'ring, 'rs, 'err, 't) Collaborators =
  ExtractOrgID :: "'ctx \<Rightarrow> 'err + string"
  ShardingStrategyShuffle :: string
  ShuffleShardWithLookback :: "'ring \<Rightarrow> string \<Rightarrow> int \<Rightarrow> int \<Rightarrow> 't \<Rightarrow> 'ring"
  GetReplicationSetForOperation :: "'ring \<Rightarrow> Operation \<Rightarrow> 'err + 'rs"
  Get :: "'ring \<Rightarrow> 32 word \<Rightarrow> Operation \<Rightarrow> 'err + 'rs"
  shardByMetricName :: "string \<Rightarrow> string \<Rightarrow> 32 word"
  MetricNameMatcherFromMatchers :: "Matcher list \<Rightarrow> (Matcher \<times> Matcher list) option"
  Now :: 't

text \<open>
  \<^verbatim>\<open>GetIngestersForQuery\<close>. The shard size and the lookback period are read only under the
  shuffle-sharding strategy; a strategy that does not return falls through to the next.
\<close>

definition GetIngestersForQuery ::
  "('ctx, 'ring, 'rs, 'err, 't) Collaborators \<Rightarrow> 'ring Distributor \<Rightarrow> 'ctx \<Rightarrow> Matcher list \<Rightarrow> 'err + 'rs" where
  "GetIngestersForQuery env d ctx matchers =
     (case ExtractOrgID env ctx of
        Inl err \<Rightarrow> Inl err
      | Inr userID \<Rightarrow>
          (let shardSize = IngestionTenantShardSize (limits d) userID;
               lookbackPeriod = ShuffleShardingLookbackPeriod (cfg d)
           in
             if ShardingStrategy (cfg d) = ShardingStrategyShuffle env \<and>
                shardSize > 0 \<and> lookbackPeriod > 0
             then
               GetReplicationSetForOperation env
                 (ShuffleShardWithLookback env (ingestersRing d) userID shardSize lookbackPeriod (Now env))
                 Read
             else if \<not> ShardByAllLabels (cfg d) then
               (case MetricNameMatcherFromMatchers env matchers of
                  Some (metricNameMatcher, rest) \<Rightarrow>
                    if Type metricNameMatcher = MatchEqual then
                      Get env (ingestersRing d)
                        (shardByMetricName env userID (MatcherValue metricNameMatcher)) Read
                    else GetReplicationSetForOperation env (ingestersRing d) Read
                | None \<Rightarrow> GetReplicationSetForOperation env (ingestersRing d) Read)
             else GetReplicationSetForOperation env (ingestersRing d) Read))"








section \<open>Aggregation of the replicas' results\<close>

text \<open>
  A Go map is an association list with distinct keys, read with \<open>map_of\<close> and written with
  \<open>AList.update\<close>. A loop \<^verbatim>\<open>for _, v := range m\<close> that appends every \<open>v\<close> to a slice visits
  each entry once, in an order the language leaves open: the slice it builds is some
  arrangement of the values of the map.
\<close>

definition range_values :: "('k \<times> 'v) list \<Rightarrow> 'v list \<Rightarrow> bool" where
  "range_values m out = (mset out = mset (map snd m))"

text \<open>A loop whose body may panic: the first panic ends it.\<close>

fun fold_panic :: "('s \<Rightarrow> 'a \<Rightarrow> panic + 's) \<Rightarrow> 's \<Rightarrow> 'a list \<Rightarrow> panic + 's" where
  "fold_panic f s [] = Inr s"
| "fold_panic f s (x # xs) = (case f s x of Inl e \<Rightarrow> Inl e | Inr s' \<Rightarrow> fold_panic f s' xs)"

subsection \<open>The streaming protocol\<close>

text \<open>A label is a name and a value.\<close>

type_synonym LabelAdapter = "string \<times> string"

text \<open>
  Modelled from the spec: the declaration of a chunk is not in \<^verbatim>\<open>query.go\<close>, which never
  looks inside one. By the specification it is an opaque encoded byte payload with an
  encoding tag and the time range it covers.
\<close>

record Chunk =
  StartTimestampMs :: int
  EndTimestampMs :: int
  Encoding :: int
  Data :: "8 word list"

text \<open>The fields of \<^verbatim>\<open>TimeSeriesChunk\<close> that \<^verbatim>\<open>queryIngesterStream\<close> reads and writes.\<close>

record TimeSeriesChunk =
  Labels :: "LabelAdapter list"
  Chunks :: "Chunk list"

text \<open>
  \<^verbatim>\<open>queryIngesterStream\<close> tests \<^verbatim>\<open>existing.Samples == nil\<close>, so the samples of a
  \<^verbatim>\<open>TimeSeries\<close> keep the difference between the nil slice (\<open>None\<close>) and an empty one.
\<close>

record TimeSeries =
  Labels_ts :: "LabelAdapter list"
  Samples :: "Sample list option"

definition slice_elems :: "'a list option \<Rightarrow> 'a list" where
  "slice_elems s = (case s of None \<Rightarrow> [] | Some xs \<Rightarrow> xs)"

record QueryStreamResponse =
  Chunkseries :: "TimeSeriesChunk list"
  Timeseries :: "TimeSeries list"

text \<open>
  The body of the loop over \<^verbatim>\<open>response.Chunkseries\<close>. \<open>keyOf\<close> stands for
  \<^verbatim>\<open>client.LabelsToKeyString(client.FromLabelAdaptersToLabels(...))\<close>; a key the map does
  not hold reads as the zero value of the struct.
\<close>

definition addChunkseries ::
  "(LabelAdapter list \<Rightarrow> string) \<Rightarrow> (string \<times> TimeSeriesChunk) list \<Rightarrow> TimeSeriesChunk \<Rightarrow>
   (string \<times> TimeSeriesChunk) list" where
  "addChunkseries keyOf hashToChunkseries series =
     (let key = keyOf (Labels series);
          existing = (case map_of hashToChunkseries key of
                        None \<Rightarrow> \<lparr>Labels = [], Chunks = []\<rparr>
                      | Some e \<Rightarrow> e);
          existing = existing\<lparr>Labels := Labels series\<rparr>;
          existing = existing\<lparr>Chunks := Chunks existing @ Chunks series\<rparr>
      in AList.update key existing hashToChunkseries)"

text \<open>The body of the loop over \<^verbatim>\<open>response.Timeseries\<close>.\<close>

definition addTimeseries ::
  "(LabelAdapter list \<Rightarrow> string) \<Rightarrow> (string \<times> TimeSeries) list \<Rightarrow> TimeSeries \<Rightarrow>
   panic + (string \<times> TimeSeries) list" where
  "addTimeseries keyOf hashToTimeSeries series =
     (let key = keyOf (Labels_ts series);
          existing = (case map_of hashToTimeSeries key of
                        None \<Rightarrow> \<lparr>Labels_ts = [], Samples = None\<rparr>
                      | Some e \<Rightarrow> e);
          existing = existing\<lparr>Labels_ts := Labels_ts series\<rparr>
      in case Samples existing of
           None \<Rightarrow> Inr (AList.update key (existing\<lparr>Samples := Samples series\<rparr>) hashToTimeSeries)
         | Some a \<Rightarrow>
             (case mergeSamples a (slice_elems (Samples series)) of
                Inl e \<Rightarrow> Inl e
              | Inr r \<Rightarrow> Inr (AList.update key (existing\<lparr>Samples := Some r\<rparr>) hashToTimeSeries)))"

text \<open>The body of the loop over \<^verbatim>\<open>results\<close>: first the chunk series, then the time series.\<close>

definition addResponse ::
  "(LabelAdapter list \<Rightarrow> string) \<Rightarrow>
   (string \<times> TimeSeriesChunk) list \<times> (string \<times> TimeSeries) list \<Rightarrow> QueryStreamResponse \<Rightarrow>
   panic + ((string \<times> TimeSeriesChunk) list \<times> (string \<times> TimeSeries) list)" where
  "addResponse keyOf maps response =
     (let hashToChunkseries = foldl (addChunkseries keyOf) (fst maps) (Chunkseries response)
      in case fold_panic (addTimeseries keyOf) (snd maps) (Timeseries response) of
           Inl e \<Rightarrow> Inl e
         | Inr hashToTimeSeries \<Rightarrow> Inr (hashToChunkseries, hashToTimeSeries))"

text \<open>The two maps when the loop over \<^verbatim>\<open>results\<close> is over.\<close>

definition queryIngesterStream_maps ::
  "(LabelAdapter list \<Rightarrow> string) \<Rightarrow> QueryStreamResponse list \<Rightarrow>
   panic + ((string \<times> TimeSeriesChunk) list \<times> (string \<times> TimeSeries) list)" where
  "queryIngesterStream_maps keyOf results = fold_panic (addResponse keyOf) ([], []) results"

text \<open>
  \<^verbatim>\<open>queryIngesterStream\<close>, from the results of the fan-out on (the fan-out itself, with its
  quorum and its errors, is the ring's): \<open>queryIngesterStream keyOf results outcome\<close> holds
  when \<open>outcome\<close> is a panic of the merge, or a response the two final \<^verbatim>\<open>range\<close> loops can
  build.
\<close>

definition queryIngesterStream ::
  "(LabelAdapter list \<Rightarrow> string) \<Rightarrow> QueryStreamResponse list \<Rightarrow> panic + QueryStreamResponse \<Rightarrow> bool" where
  "queryIngesterStream keyOf results outcome =
     (case queryIngesterStream_maps keyOf results of
        Inl e \<Rightarrow> outcome = Inl e
      | Inr maps \<Rightarrow>
          (case outcome of
             Inl e \<Rightarrow> False
           | Inr resp \<Rightarrow>
               range_values (fst maps) (Chunkseries resp) \<and>
               range_values (snd maps) (Timeseries resp)))"

subsection \<open>The batch protocol\<close>

type_synonym Metric = "(string \<times> string) list"

record 'sp SampleStream =
  Metric :: Metric
  Values :: "'sp list"

text \<open>
  The body of the inner loop of \<^verbatim>\<open>queryIngesters\<close>. \<open>fingerprint\<close> stands for
  \<^verbatim>\<open>Metric.Fingerprint\<close> and \<open>mergeSampleSets\<close> for \<^verbatim>\<open>util.MergeSampleSets\<close>. The map holds
  pointers: assigning to \<^verbatim>\<open>mss.Values\<close> changes the stream the map holds.
\<close>

definition addSampleStream ::
  "(Metric \<Rightarrow> 64 word) \<Rightarrow> ('sp list \<Rightarrow> 'sp list \<Rightarrow> 'sp list) \<Rightarrow>
   (64 word \<times> 'sp SampleStream) list \<Rightarrow> 'sp SampleStream \<Rightarrow> (64 word \<times> 'sp SampleStream) list" where
  "addSampleStream fingerprint mergeSampleSets fpToSampleStream ss =
     (let fp = fingerprint (Metric ss);
          mss = (case map_of fpToSampleStream fp of
                   None \<Rightarrow> \<lparr>Metric = Metric ss, Values = []\<rparr>
                 | Some mss \<Rightarrow> mss)
      in AList.update fp (mss\<lparr>Values := mergeSampleSets (Values mss) (Values ss)\<rparr>) fpToSampleStream)"

definition queryIngesters_map ::
  "(Metric \<Rightarrow> 64 word) \<Rightarrow> ('sp list \<Rightarrow> 'sp list \<Rightarrow> 'sp list) \<Rightarrow>
   'sp SampleStream list list \<Rightarrow> (64 word \<times> 'sp SampleStream) list" where
  "queryIngesters_map fingerprint mergeSampleSets results =
     foldl (\<lambda>fpToSampleStream result.
              foldl (addSampleStream fingerprint mergeSampleSets) fpToSampleStream result)
       [] results"

text \<open>
  \<^verbatim>\<open>queryIngesters\<close>, from the results of the fan-out on: \<open>matrix\<close> is a matrix the final
  \<^verbatim>\<open>range\<close> loop can build.
\<close>

definition queryIngesters ::
  "(Metric \<Rightarrow> 64 word) \<Rightarrow> ('sp list \<Rightarrow> 'sp list \<Rightarrow> 'sp list) \<Rightarrow>
   'sp SampleStream list list \<Rightarrow> 'sp SampleStream list \<Rightarrow> bool" where
  "queryIngesters fingerprint mergeSampleSets results matrix =
     range_values (queryIngesters_map fingerprint mergeSampleSets results) matrix"

text \<open>
  Modelled from the spec: \<^verbatim>\<open>util.MergeSampleSets\<close> is not in \<^verbatim>\<open>query.go\<close>, and the
  aggregation above takes it as the parameter \<open>mergeSampleSets\<close>. The specification has
  the batch path fold the series of a fingerprint through the same merge as the streaming
  path: advance the side with the smaller timestamp, on a tie keep the sample of the left
  operand and advance both sides, then append what is left of either side. \<open>merge_by\<close> is
  that merge, over any type of samples with a timestamp. Nothing is assumed of
  \<open>mergeSampleSets\<close> except where a statement says \<open>mergeSampleSets = merge_by timestampOf\<close>.
  \<^verbatim>\<open>mergeSamples\<close> itself computes \<open>merge_by TimestampMs\<close>, which the proofs use.
\<close>

fun merge_by :: "('sp \<Rightarrow> int) \<Rightarrow> 'sp list \<Rightarrow> 'sp list \<Rightarrow> 'sp list" where
  "merge_by ts [] ys = ys"
| "merge_by ts (x # xs) [] = x # xs"
| "merge_by ts (x # xs) (y # ys) =
     (if ts x < ts y then x # merge_by ts xs (y # ys)
      else if ts x > ts y then y # merge_by ts (x # xs) ys
      else x # merge_by ts xs ys)"

subsection \<open>Notions used in the proofs\<close>

text \<open>
  A map is \<open>keyed\<close> by \<open>f\<close> when its keys are distinct and every value is stored under the
  key \<open>f\<close> gives it. \<open>lookup_chunks\<close> and \<open>lookup_timestamps\<close> read what a map holds for a
  key: the chunks, and the timestamps of the samples.
\<close>

definition keyed :: "('v \<Rightarrow> 'k) \<Rightarrow> ('k \<times> 'v) list \<Rightarrow> bool" where
  "keyed f m = (distinct (map fst m) \<and> (\<forall>kv \<in> set m. f (snd kv) = fst kv))"

definition lookup_chunks :: "(string \<times> TimeSeriesChunk) list \<Rightarrow> string \<Rightarrow> Chunk list" where
  "lookup_chunks m k = (case map_of m k of None \<Rightarrow> [] | Some e \<Rightarrow> Chunks e)"

definition lookup_timestamps :: "(string \<times> TimeSeries) list \<Rightarrow> string \<Rightarrow> int set" where
  "lookup_timestamps m k =
     (case map_of m k of None \<Rightarrow> {} | Some e \<Rightarrow> TimestampMs ` set (slice_elems (Samples e)))"

text \<open>
  \<open>lookup_samples\<close> and \<open>lookup_values\<close> read the samples a map holds for a key, and
  \<open>lookup_nil\<close> whether it holds no slice of samples for it (no entry, or a \<^verbatim>\<open>nil\<close> slice).
  \<open>contributed_chunks\<close>, \<open>contributed_samples\<close> and \<open>contributed_values\<close> are the lists
  of chunks and of samples the replicas sent for a key, in the order of arrival. The replicas \<open>agree\<close> when any two of these samples
  with the same timestamp are the same sample, and they \<open>agree_at\<close> a timestamp when that
  holds of the samples with that timestamp.
\<close>

definition lookup_samples :: "(string \<times> TimeSeries) list \<Rightarrow> string \<Rightarrow> Sample list" where
  "lookup_samples m k = (case map_of m k of None \<Rightarrow> [] | Some e \<Rightarrow> slice_elems (Samples e))"

definition lookup_values :: "(64 word \<times> 'sp SampleStream) list \<Rightarrow> 64 word \<Rightarrow> 'sp list" where
  "lookup_values m fp = (case map_of m fp of None \<Rightarrow> [] | Some e \<Rightarrow> Values e)"

definition lookup_nil :: "(string \<times> TimeSeries) list \<Rightarrow> string \<Rightarrow> bool" where
  "lookup_nil m k = (case map_of m k of None \<Rightarrow> True | Some e \<Rightarrow> Samples e = None)"

definition contributed_chunks ::
  "(LabelAdapter list \<Rightarrow> string) \<Rightarrow> QueryStreamResponse list \<Rightarrow> string \<Rightarrow> Chunk list list" where
  "contributed_chunks keyOf results k =
     map Chunks (filter (\<lambda>s. keyOf (Labels s) = k) (concat (map Chunkseries results)))"

definition contributed_samples ::
  "(LabelAdapter list \<Rightarrow> string) \<Rightarrow> QueryStreamResponse list \<Rightarrow> string \<Rightarrow> Sample list list" where
  "contributed_samples keyOf results k =
     map (\<lambda>s. slice_elems (Samples s))
       (filter (\<lambda>s. keyOf (Labels_ts s) = k) (concat (map Timeseries results)))"

definition contributed_values ::
  "(Metric \<Rightarrow> 64 word) \<Rightarrow> 'sp SampleStream list list \<Rightarrow> 64 word \<Rightarrow> 'sp list list" where
  "contributed_values fingerprint batch fp =
     map Values (filter (\<lambda>ss. fingerprint (Metric ss) = fp) (concat batch))"

definition agree :: "('sp \<Rightarrow> int) \<Rightarrow> 'sp list list \<Rightarrow> bool" where
  "agree ts xss =
     (\<forall>p \<in> set (concat xss). \<forall>q \<in> set (concat xss). ts p = ts q \<longrightarrow> p = q)"

definition agree_at :: "('sp \<Rightarrow> int) \<Rightarrow> 'sp list list \<Rightarrow> int \<Rightarrow> bool" where
  "agree_at ts xss t =
     (\<forall>p \<in> set (concat xss). \<forall>q \<in> set (concat xss). ts p = t \<and> ts q = t \<longrightarrow> p = q)"

subsection \<open>Example data\<close>

text \<open>
  Stand-ins for the key function, the fingerprint and \<^verbatim>\<open>util.MergeSampleSets\<close>, and small
  results of replicas. Every theorem below holds for all functions in their place; the
  stand-ins only serve the examples.
\<close>

definition example_keyOf :: "LabelAdapter list \<Rightarrow> string" where
  "example_keyOf ls = concat (map (\<lambda>(n, v). n @ ''='' @ v @ '';'') ls)"

definition example_chunk :: "int \<Rightarrow> Chunk" where
  "example_chunk t = \<lparr>StartTimestampMs = t, EndTimestampMs = t + 10, Encoding = 0, Data = [1, 2, 3]\<rparr>"

definition example_response :: "string \<Rightarrow> Chunk list \<Rightarrow> Sample list \<Rightarrow> QueryStreamResponse" where
  "example_response job chunks samples =
     \<lparr>Chunkseries = [\<lparr>Labels = [(''job'', job)], Chunks = chunks\<rparr>],
      Timeseries = [\<lparr>Labels_ts = [(''job'', job)], Samples = Some samples\<rparr>]\<rparr>"

definition example_fingerprint :: "Metric \<Rightarrow> 64 word" where
  "example_fingerprint m = of_nat (length (concat (map (\<lambda>(n, v). n @ v) m)))"

definition example_mergeSampleSets :: "(int \<times> float64) list \<Rightarrow> (int \<times> float64) list \<Rightarrow> (int \<times> float64) list" where
  "example_mergeSampleSets a b = a @ filter (\<lambda>p. fst p \<notin> fst ` set a) b"

definition example_stream :: "string \<Rightarrow> (int \<times> float64) list \<Rightarrow> (int \<times> float64) SampleStream" where
  "example_stream job values = \<lparr>Metric = [(''job'', job)], Values = values\<rparr>"

section \<open>The loops compute the list merge\<close>

declare sameSamples_loop.simps [simp del]
declare mergeSamples_loop.simps [simp del]

lemma sameSamples_loop_eq:
  "length a = length b \<Longrightarrow> sameSamples_loop a b i = Inr (list_all2 Sample_eq (drop i a) (drop i b))"
proof (induction a b i rule: sameSamples_loop.induct)
  case (1 a b i)
  show ?case
  proof (cases "i < length a")
    case True
    with "1.prems" have ib: "i < length b" by simp
    have da: "drop i a = a ! i # drop (Suc i) a" using True by (simp add: Cons_nth_drop_Suc)
    have db: "drop i b = b ! i # drop (Suc i) b" using ib by (simp add: Cons_nth_drop_Suc)
    show ?thesis
    proof (cases "Sample_eq (a ! i) (b ! i)")
      case False
      then show ?thesis using True ib da db
        by (subst sameSamples_loop.simps) (simp add: index_def)
    next
      case eq: True
      have "sameSamples_loop a b (i + 1) = Inr (list_all2 Sample_eq (drop (i + 1) a) (drop (i + 1) b))"
        using "1.IH"[of "a ! i" "b ! i"] True ib eq "1.prems" by (simp add: index_def)
      then show ?thesis using True ib da db eq
        by (subst sameSamples_loop.simps) (simp add: index_def)
    qed
  next
    case False
    with "1.prems" show ?thesis
      by (subst sameSamples_loop.simps) simp
  qed
qed

lemma sameSamples_eq: "sameSamples a b = Inr (list_all2 Sample_eq a b)"
  by (auto simp: sameSamples_def sameSamples_loop_eq dest: list_all2_lengthD)

lemma mergeSamples_loop_merge_lists:
  "i \<le> length a \<Longrightarrow> j \<le> length b \<Longrightarrow>
   \<exists>i' j' r. mergeSamples_loop a b i j res = Inr (i', j', r) \<and> i' \<le> length a \<and> j' \<le> length b \<and>
     r @ drop i' a @ drop j' b = res @ merge_lists (drop i a) (drop j b)"
proof (induction a b i j res rule: mergeSamples_loop.induct)
  case (1 a b i j result)
  show ?case
  proof (cases "i < length a \<and> j < length b")
    case True
    then have ia: "i < length a" and jb: "j < length b" by simp_all
    have da: "drop i a = a ! i # drop (Suc i) a" using ia by (simp add: Cons_nth_drop_Suc)
    have db: "drop j b = b ! j # drop (Suc j) b" using jb by (simp add: Cons_nth_drop_Suc)
    consider (lt) "TimestampMs (a ! i) < TimestampMs (b ! j)"
      | (gt) "TimestampMs (a ! i) > TimestampMs (b ! j)"
      | (eq) "TimestampMs (a ! i) = TimestampMs (b ! j)" by linarith
    then show ?thesis
    proof cases
      case lt
      have "\<exists>i' j' r. mergeSamples_loop a b (i + 1) j (result @ [a ! i]) = Inr (i', j', r) \<and> i' \<le> length a \<and> j' \<le> length b \<and>
         r @ drop i' a @ drop j' b = (result @ [a ! i]) @ merge_lists (drop (i + 1) a) (drop j b)"
        using "1.IH"(1)[of "a ! i" "b ! j"] ia jb lt by (simp add: index_def)
      then show ?thesis using ia jb lt da db
        by (subst mergeSamples_loop.simps) (simp add: index_def)
    next
      case gt
      have "\<exists>i' j' r. mergeSamples_loop a b i (j + 1) (result @ [b ! j]) = Inr (i', j', r) \<and> i' \<le> length a \<and> j' \<le> length b \<and>
         r @ drop i' a @ drop j' b = (result @ [b ! j]) @ merge_lists (drop i a) (drop (j + 1) b)"
        using "1.IH"(2)[of "a ! i" "b ! j"] ia jb gt by (simp add: index_def)
      then show ?thesis using ia jb gt da db
        by (subst mergeSamples_loop.simps) (simp add: index_def)
    next
      case eq
      have "\<exists>i' j' r. mergeSamples_loop a b (i + 1) (j + 1) (result @ [a ! i]) = Inr (i', j', r) \<and> i' \<le> length a \<and> j' \<le> length b \<and>
         r @ drop i' a @ drop j' b = (result @ [a ! i]) @ merge_lists (drop (i + 1) a) (drop (j + 1) b)"
        using "1.IH"(3)[of "a ! i" "b ! j"] ia jb eq by (simp add: index_def)
      then show ?thesis using ia jb eq da db
        by (subst mergeSamples_loop.simps) (simp add: index_def)
    qed
  next
    case False
    have m: "merge_lists (drop i a) (drop j b) = drop i a @ drop j b"
    proof (cases "i < length a")
      case True
      with False have "drop j b = []" by simp
      then show ?thesis by (cases "drop i a") simp_all
    next
      case False
      then show ?thesis by simp
    qed
    show ?thesis using False "1.prems" m
      by (subst mergeSamples_loop.simps) auto
  qed
qed

lemma mergeSamples_counted_eq:
  "mergeSamples_counted n a b =
     Inr (if list_all2 Sample_eq a b then (a, n) else (merge_lists a b, n + 1))"
proof (cases "list_all2 Sample_eq a b")
  case True
  then show ?thesis by (simp add: mergeSamples_counted_def sameSamples_eq)
next
  case False
  obtain i' j' r where l: "mergeSamples_loop a b 0 0 [] = Inr (i', j', r)"
    and b: "i' \<le> length a" "j' \<le> length b"
    and e: "r @ drop i' a @ drop j' b = [] @ merge_lists (drop 0 a) (drop 0 b)"
    using mergeSamples_loop_merge_lists[of 0 a 0 b "[]"] by auto
  show ?thesis using False l b e
    by (simp add: mergeSamples_counted_def sameSamples_eq slice_from_def)
qed

lemma mergeSamples_eq:
  "mergeSamples a b = Inr (if list_all2 Sample_eq a b then a else merge_lists a b)"
  by (simp add: mergeSamples_def mergeSamples_counted_eq)

section \<open>Properties of the merge\<close>

lemma Sample_eq_timestamps:
  "list_all2 Sample_eq a b \<Longrightarrow> map TimestampMs a = map TimestampMs b"
  by (induction a b rule: list_all2_induct) (simp_all add: Sample_eq_def)

lemma merge_lists_Nil2 [simp]: "merge_lists a [] = a"
  by (cases a) simp_all

lemma merge_lists_same [simp]: "merge_lists x x = x"
  by (induction x) simp_all

lemma merge_lists_timestamps:
  "TimestampMs ` set (merge_lists a b) = TimestampMs ` set a \<union> TimestampMs ` set b"
  by (induction a b rule: merge_lists.induct) auto

lemma strictly_increasing_Cons:
  "strictly_increasing (x # xs) \<longleftrightarrow>
     (\<forall>t \<in> TimestampMs ` set xs. TimestampMs x < t) \<and> strictly_increasing xs"
  by (auto simp: strictly_increasing_def)

lemma strictly_increasing_Nil [simp]: "strictly_increasing []"
  by (simp add: strictly_increasing_def)

lemma merge_lists_strictly_increasing:
  "strictly_increasing a \<Longrightarrow> strictly_increasing b \<Longrightarrow> strictly_increasing (merge_lists a b)"
proof (induction a b rule: merge_lists.induct)
  case (1 ys)
  then show ?case by simp
next
  case (2 x xs)
  then show ?case by simp
next
  case (3 x xs y ys)
  from "3.prems" have xs: "strictly_increasing xs" and ys: "strictly_increasing ys"
    and xlt: "\<forall>t \<in> TimestampMs ` set xs. TimestampMs x < t"
    and ylt: "\<forall>t \<in> TimestampMs ` set ys. TimestampMs y < t"
    by (simp_all add: strictly_increasing_Cons)
  consider (lt) "TimestampMs x < TimestampMs y" | (gt) "TimestampMs x > TimestampMs y"
    | (eq) "TimestampMs x = TimestampMs y" by linarith
  then show ?case
  proof cases
    case lt
    have "strictly_increasing (merge_lists xs (y # ys))"
      using "3.IH"(1) lt xs "3.prems"(2) by simp
    moreover have "\<forall>t \<in> TimestampMs ` set (merge_lists xs (y # ys)). TimestampMs x < t"
      using xlt ylt lt by (auto simp: merge_lists_timestamps)
    ultimately show ?thesis using lt by (simp add: strictly_increasing_Cons)
  next
    case gt
    have "strictly_increasing (merge_lists (x # xs) ys)"
      using "3.IH"(2) gt ys "3.prems"(1) by simp
    moreover have "\<forall>t \<in> TimestampMs ` set (merge_lists (x # xs) ys). TimestampMs y < t"
      using xlt ylt gt by (auto simp: merge_lists_timestamps)
    ultimately show ?thesis using gt by (simp add: strictly_increasing_Cons)
  next
    case eq
    have "strictly_increasing (merge_lists xs ys)"
      using "3.IH"(3) eq xs ys by simp
    moreover have "\<forall>t \<in> TimestampMs ` set (merge_lists xs ys). TimestampMs x < t"
      using xlt ylt eq by (auto simp: merge_lists_timestamps)
    ultimately show ?thesis using eq by (simp add: strictly_increasing_Cons)
  qed
qed

lemma filter_timestamp_absent:
  "t \<notin> TimestampMs ` set xs \<Longrightarrow> filter (\<lambda>s. TimestampMs s = t) xs = []"
  by (induction xs) auto

lemma filter_timestamp_member:
  "strictly_increasing xs \<Longrightarrow> s \<in> set xs \<Longrightarrow> filter (\<lambda>u. TimestampMs u = TimestampMs s) xs = [s]"
proof (induction xs)
  case Nil
  then show ?case by simp
next
  case (Cons x xs)
  from Cons.prems(1) have xs: "strictly_increasing xs"
    and xlt: "\<forall>t \<in> TimestampMs ` set xs. TimestampMs x < t"
    by (simp_all add: strictly_increasing_Cons)
  show ?case
  proof (cases "s = x")
    case True
    have "TimestampMs x \<notin> TimestampMs ` set xs" using xlt by auto
    then show ?thesis using True by (simp add: filter_timestamp_absent)
  next
    case False
    with Cons.prems(2) have sxs: "s \<in> set xs" by simp
    then have "TimestampMs x \<noteq> TimestampMs s" using xlt by auto
    then show ?thesis using Cons.IH[OF xs sxs] by simp
  qed
qed

lemma merge_lists_filter_timestamp:
  "strictly_increasing a \<Longrightarrow> strictly_increasing b \<Longrightarrow>
   filter (\<lambda>s. TimestampMs s = t) (merge_lists a b) =
     (if t \<in> TimestampMs ` set a then filter (\<lambda>s. TimestampMs s = t) a
      else filter (\<lambda>s. TimestampMs s = t) b)"
proof (induction a b rule: merge_lists.induct)
  case (1 ys)
  then show ?case by simp
next
  case (2 x xs)
  then show ?case by (simp add: filter_timestamp_absent)
next
  case (3 x xs y ys)
  from "3.prems" have xs: "strictly_increasing xs" and ys: "strictly_increasing ys"
    and xlt: "\<forall>t \<in> TimestampMs ` set xs. TimestampMs x < t"
    and ylt: "\<forall>t \<in> TimestampMs ` set ys. TimestampMs y < t"
    by (simp_all add: strictly_increasing_Cons)
  consider (lt) "TimestampMs x < TimestampMs y" | (gt) "TimestampMs x > TimestampMs y"
    | (eq) "TimestampMs x = TimestampMs y" by linarith
  then show ?case
  proof cases
    case lt
    have ih: "filter (\<lambda>s. TimestampMs s = t) (merge_lists xs (y # ys)) =
      (if t \<in> TimestampMs ` set xs then filter (\<lambda>s. TimestampMs s = t) xs
       else filter (\<lambda>s. TimestampMs s = t) (y # ys))"
      using "3.IH"(1) lt xs "3.prems"(2) by simp
    show ?thesis
    proof (cases "TimestampMs x = t")
      case True
      then have "t \<notin> TimestampMs ` set xs" "t \<notin> TimestampMs ` set (y # ys)"
        using xlt ylt lt by auto
      then show ?thesis using True lt ih by (simp add: filter_timestamp_absent)
    next
      case False
      then show ?thesis using lt ih by simp
    qed
  next
    case gt
    have ih: "filter (\<lambda>s. TimestampMs s = t) (merge_lists (x # xs) ys) =
      (if t \<in> TimestampMs ` set (x # xs) then filter (\<lambda>s. TimestampMs s = t) (x # xs)
       else filter (\<lambda>s. TimestampMs s = t) ys)"
      using "3.IH"(2) gt ys "3.prems"(1) by simp
    show ?thesis
    proof (cases "TimestampMs y = t")
      case True
      then have "t \<notin> TimestampMs ` set (x # xs)"
        using xlt gt by auto
      then show ?thesis using True gt ih by (simp add: filter_timestamp_absent)
    next
      case False
      then show ?thesis using gt ih by simp
    qed
  next
    case eq
    have ih: "filter (\<lambda>s. TimestampMs s = t) (merge_lists xs ys) =
      (if t \<in> TimestampMs ` set xs then filter (\<lambda>s. TimestampMs s = t) xs
       else filter (\<lambda>s. TimestampMs s = t) ys)"
      using "3.IH"(3) eq xs ys by simp
    show ?thesis
    proof (cases "TimestampMs x = t")
      case True
      then have "t \<notin> TimestampMs ` set xs" "t \<notin> TimestampMs ` set ys"
        using xlt ylt eq by auto
      then show ?thesis using True eq ih by (simp add: filter_timestamp_absent)
    next
      case False
      then show ?thesis using eq ih by simp
    qed
  qed
qed

section \<open>Claims about mergeSamples\<close>

lemmas mergeSamples_eval =
  mergeSamples_def mergeSamples_counted_def sameSamples_def sameSamples_loop.simps
  mergeSamples_loop.simps index_def slice_from_def Sample_eq_def float64_eq_def
  float64_isNaN_def float64_isZero_def strictly_increasing_def

text \<open>
  C1 (completeness). \<^verbatim>\<open>mergeSamples\<close> returns, and the set of timestamps of what it
  returns is the union of the timestamps of \<open>a\<close> and of \<open>b\<close>. This holds for all inputs,
  in particular for the strictly increasing, duplicate-free ones the claim is about.
\<close>

theorem mergeSamples_timestamps:
  "\<exists>r. mergeSamples a b = Inr r \<and>
     TimestampMs ` set r = TimestampMs ` set a \<union> TimestampMs ` set b"
proof (cases "list_all2 Sample_eq a b")
  case True
  then have "map TimestampMs a = map TimestampMs b" by (rule Sample_eq_timestamps)
  then have "TimestampMs ` set a = TimestampMs ` set b" by (metis set_map)
  then show ?thesis using True by (simp add: mergeSamples_eq)
next
  case False
  then show ?thesis by (simp add: mergeSamples_eq merge_lists_timestamps)
qed

text \<open>
  C2 (ordering). When \<open>a\<close> and \<open>b\<close> are strictly increasing in timestamp, \<^verbatim>\<open>mergeSamples\<close>
  returns and its result is strictly increasing in timestamp.
\<close>

theorem mergeSamples_strictly_increasing:
  "strictly_increasing a \<Longrightarrow> strictly_increasing b \<Longrightarrow>
   \<exists>r. mergeSamples a b = Inr r \<and> strictly_increasing r"
proof (cases "list_all2 Sample_eq a b")
  case True
  assume "strictly_increasing a"
  with True show ?thesis by (simp add: mergeSamples_eq)
next
  case False
  assume "strictly_increasing a" and "strictly_increasing b"
  then have "strictly_increasing (merge_lists a b)" by (rule merge_lists_strictly_increasing)
  with False show ?thesis by (simp add: mergeSamples_eq)
qed

text \<open>
  The witness is the end-to-end example of the specification: one replica holds
  \<open>[(100, 1), (200, 2)]\<close>, the other \<open>[(200, 2), (300, 3)]\<close>.
\<close>

theorem mergeSamples_strictly_increasing_witness:
  "strictly_increasing [sample 100 f64_1, sample 200 f64_2] \<and>
   strictly_increasing [sample 200 f64_2, sample 300 f64_3] \<and>
   mergeSamples [sample 100 f64_1, sample 200 f64_2] [sample 200 f64_2, sample 300 f64_3] =
     Inr [sample 100 f64_1, sample 200 f64_2, sample 300 f64_3] \<and>
   strictly_increasing [sample 100 f64_1, sample 200 f64_2, sample 300 f64_3]"
  using mergeSamples_strictly_increasing
    [of "[sample 100 f64_1, sample 200 f64_2]" "[sample 200 f64_2, sample 300 f64_3]"]
  by (simp add: mergeSamples_eval)

text \<open>
  C3 (tie-break). For strictly increasing \<open>a\<close> and \<open>b\<close>, when a sample \<open>sa\<close> of \<open>a\<close> and a
  sample \<open>sb\<close> of \<open>b\<close> carry the same timestamp, the samples of the result at that
  timestamp are exactly \<open>sa\<close>: the sample of \<open>b\<close> is dropped.
\<close>

theorem mergeSamples_tie_left_wins:
  assumes "strictly_increasing a" and "strictly_increasing b"
    and "sa \<in> set a" and "sb \<in> set b" and "TimestampMs sa = TimestampMs sb"
  shows "\<exists>r. mergeSamples a b = Inr r \<and>
           filter (\<lambda>s. TimestampMs s = TimestampMs sa) r = [sa]"
proof -
  have "filter (\<lambda>s. TimestampMs s = TimestampMs sa) a = [sa]"
    using assms(1,3) by (rule filter_timestamp_member)
  moreover have "filter (\<lambda>s. TimestampMs s = TimestampMs sa) (merge_lists a b) =
     filter (\<lambda>s. TimestampMs s = TimestampMs sa) a"
    using assms(1,2,3) by (simp add: merge_lists_filter_timestamp)
  ultimately show ?thesis by (simp add: mergeSamples_eq)
qed

text \<open>The witness is the example of the claim: \<open>Merge([(100, 1.0)], [(100, 2.0)]) = [(100, 1.0)]\<close>.\<close>

theorem mergeSamples_tie_left_wins_witness:
  "strictly_increasing [sample 100 f64_1] \<and>
   strictly_increasing [sample 100 f64_2] \<and>
   mergeSamples [sample 100 f64_1] [sample 100 f64_2] = Inr [sample 100 f64_1] \<and>
   filter (\<lambda>s. TimestampMs s = 100) [sample 100 f64_1] = [sample 100 f64_1]"
  using mergeSamples_tie_left_wins
    [of "[sample 100 f64_1]" "[sample 100 f64_2]" "sample 100 f64_1" "sample 100 f64_2"]
  by (simp add: mergeSamples_eval)

text \<open>
  C4 (fast path), as stated, fails: the fast path is guarded by Go's \<^verbatim>\<open>==\<close> on the
  samples, and a NaN value is not equal to itself. On two identical one-sample series
  whose value is the staleness marker (a NaN), \<^verbatim>\<open>sameSamples\<close> answers false and
  \<^verbatim>\<open>mergeSamples\<close> builds a new slice (one call of \<^verbatim>\<open>make\<close>) with the same content.
\<close>

theorem sameSamples_NaN_counterexample:
  "sameSamples [sample 100 f64_StaleNaN] [sample 100 f64_StaleNaN] = Inr False \<and>
   mergeSamples_counted 0 [sample 100 f64_StaleNaN] [sample 100 f64_StaleNaN] =
     Inr ([sample 100 f64_StaleNaN], 1)"
  by (simp add: mergeSamples_eval)

text \<open>
  C4, amended. When \<open>a\<close> and \<open>b\<close> are element-wise equal under Go's \<^verbatim>\<open>==\<close> (same length,
  equal timestamps, values equal as floats), \<^verbatim>\<open>mergeSamples\<close> returns \<open>a\<close> and builds no
  slice. For every \<open>x\<close> the result of merging \<open>x\<close> with itself has the content of \<open>x\<close>: it
  is \<open>x\<close> itself, with no slice built, when no value of \<open>x\<close> is a NaN, and a newly built
  copy (one slice built) when some value of \<open>x\<close> is a NaN.
\<close>

theorem mergeSamples_fast_path:
  "(list_all2 Sample_eq a b \<longrightarrow> mergeSamples_counted n a b = Inr (a, n)) \<and>
   mergeSamples x x = Inr x \<and>
   ((\<forall>s \<in> set x. \<not> float64_isNaN (Value s)) \<longrightarrow> mergeSamples_counted n x x = Inr (x, n)) \<and>
   ((\<exists>s \<in> set x. float64_isNaN (Value s)) \<longrightarrow> mergeSamples_counted n x x = Inr (x, n + 1))"
proof (intro conjI impI)
  assume "list_all2 Sample_eq a b"
  then show "mergeSamples_counted n a b = Inr (a, n)" by (simp add: mergeSamples_counted_eq)
next
  show "mergeSamples x x = Inr x" by (simp add: mergeSamples_eq)
next
  assume "\<forall>s \<in> set x. \<not> float64_isNaN (Value s)"
  then have "list_all2 Sample_eq x x"
    by (auto simp: list_all2_conv_all_nth Sample_eq_def float64_eq_def)
  then show "mergeSamples_counted n x x = Inr (x, n)" by (simp add: mergeSamples_counted_eq)
next
  assume "\<exists>s \<in> set x. float64_isNaN (Value s)"
  then obtain s where s: "s \<in> set x" and nan: "float64_isNaN (Value s)" by blast
  from nan have "\<not> Sample_eq s s" by (simp add: Sample_eq_def float64_eq_def)
  with s have "\<not> list_all2 Sample_eq x x" by (auto simp: list_all2_same)
  then have "mergeSamples_counted n x x = Inr (merge_lists x x, n + 1)"
    by (simp add: mergeSamples_counted_eq)
  then show "mergeSamples_counted n x x = Inr (x, n + 1)" by simp
qed

text \<open>
  The witness takes the fast path on two series that differ in their bits (\<open>+0\<close> and \<open>-0\<close>)
  and are equal under \<^verbatim>\<open>==\<close>, and on a NaN-free series merged with itself; a series
  that holds a NaN after an ordinary value is copied when it is merged with itself.
\<close>

theorem mergeSamples_fast_path_witness:
  "list_all2 Sample_eq [sample 100 0] [sample 100 f64_neg0] \<and>
   mergeSamples_counted 0 [sample 100 0] [sample 100 f64_neg0] = Inr ([sample 100 0], 0) \<and>
   mergeSamples [sample 100 f64_1, sample 200 f64_2] [sample 100 f64_1, sample 200 f64_2] =
     Inr [sample 100 f64_1, sample 200 f64_2] \<and>
   \<not> float64_isNaN f64_1 \<and> \<not> float64_isNaN f64_2 \<and>
   mergeSamples_counted 0 [sample 100 f64_1, sample 200 f64_2] [sample 100 f64_1, sample 200 f64_2] =
     Inr ([sample 100 f64_1, sample 200 f64_2], 0) \<and>
   float64_isNaN f64_StaleNaN \<and>
   mergeSamples_counted 0 [sample 100 f64_1, sample 200 f64_StaleNaN]
       [sample 100 f64_1, sample 200 f64_StaleNaN] =
     Inr ([sample 100 f64_1, sample 200 f64_StaleNaN], 1)"
proof -
  have nan: "\<exists>s \<in> set [sample 100 f64_1, sample 200 f64_StaleNaN]. float64_isNaN (Value s)"
    by (simp add: float64_isNaN_def)
  have "mergeSamples_counted 0 [sample 100 f64_1, sample 200 f64_StaleNaN]
       [sample 100 f64_1, sample 200 f64_StaleNaN] =
     Inr ([sample 100 f64_1, sample 200 f64_StaleNaN], 0 + 1)"
    using mergeSamples_fast_path [of "[]" "[]" 0 "[sample 100 f64_1, sample 200 f64_StaleNaN]"] nan
    by blast
  then show ?thesis
    using mergeSamples_fast_path
      [of "[sample 100 0]" "[sample 100 f64_neg0]" 0 "[sample 100 f64_1, sample 200 f64_2]"]
    by (simp add: mergeSamples_eval)
qed

text \<open>
  C9 (errors), as stated, fails in its second half: \<^verbatim>\<open>mergeSamples\<close> has no failure path.
  On an unsorted \<open>a\<close> it returns normally, and the result is not sorted.
\<close>

theorem mergeSamples_unsorted_counterexample:
  "\<not> strictly_increasing [sample 300 f64_3, sample 100 f64_1] \<and>
   mergeSamples [sample 300 f64_3, sample 100 f64_1] [sample 200 f64_2] =
     Inr [sample 200 f64_2, sample 300 f64_3, sample 100 f64_1] \<and>
   \<not> strictly_increasing [sample 200 f64_2, sample 300 f64_3, sample 100 f64_1]"
  by (simp add: mergeSamples_eval)

text \<open>
  C9, amended. \<^verbatim>\<open>mergeSamples\<close> raises no internal error on any inputs, whether or not
  they satisfy the precondition: every index and slice expression is in range, and the
  function returns a sequence.
\<close>

theorem mergeSamples_never_panics: "\<exists>r. mergeSamples a b = Inr r"
proof (cases "list_all2 Sample_eq a b")
  case True
  then have "mergeSamples a b = Inr a" by (simp add: mergeSamples_eq)
  then show ?thesis ..
next
  case False
  then have "mergeSamples a b = Inr (merge_lists a b)" by (simp add: mergeSamples_eq)
  then show ?thesis ..
qed

text \<open>
  C10 (identity element). For every \<open>a\<close>, \<^verbatim>\<open>mergeSamples(a, [])\<close> is \<open>a\<close>, and for every \<open>b\<close>,
  \<^verbatim>\<open>mergeSamples([], b)\<close> is \<open>b\<close>.
\<close>

theorem mergeSamples_empty_identity:
  "mergeSamples a [] = Inr a \<and> mergeSamples [] b = Inr b"
proof
  show "mergeSamples a [] = Inr a" by (simp add: mergeSamples_eq)
  show "mergeSamples [] b = Inr b" by (cases b) (simp_all add: mergeSamples_eq)
qed

section \<open>Claims about GetIngestersForQuery\<close>

lemma GetIngestersForQuery_no_tenant:
  "ExtractOrgID env ctx = Inl err \<Longrightarrow> GetIngestersForQuery env d ctx matchers = Inl err"
  by (simp add: GetIngestersForQuery_def)





section \<open>Properties of the aggregation\<close>

subsection \<open>Maps and range loops\<close>

lemma keyed_Nil [simp]: "keyed f []"
  by (simp add: keyed_def)

lemma keyed_iff_map_of:
  "keyed f m \<longleftrightarrow> distinct (map fst m) \<and> (\<forall>k v. map_of m k = Some v \<longrightarrow> f v = k)"
  by (force simp: keyed_def)

lemma keyed_update: "keyed f m \<Longrightarrow> f v = k \<Longrightarrow> keyed f (AList.update k v m)"
  by (auto simp: keyed_iff_map_of distinct_update update_conv' split: if_splits)

lemma keyed_map_fst: "keyed f m \<Longrightarrow> map (f \<circ> snd) m = map fst m"
  by (simp add: keyed_def)

lemma keyed_lookup: "keyed f m \<Longrightarrow> v \<in> snd ` set m \<Longrightarrow> map_of m (f v) = Some v"
  by (auto simp: keyed_def)

lemma range_values_set: "range_values m out \<Longrightarrow> set out = snd ` set m"
  unfolding range_values_def by (metis mset_eq_setD set_map)

lemma range_values_keys:
  assumes "keyed f m" and "range_values m out"
  shows "mset (map f out) = mset (map fst m)"
proof -
  have "mset (map f out) = image_mset f (mset (map snd m))"
    using assms(2) by (simp add: range_values_def)
  also have "\<dots> = mset (map (f \<circ> snd) m)" by (simp add: multiset.map_comp)
  also have "\<dots> = mset (map fst m)" using assms(1) by (simp add: keyed_map_fst)
  finally show ?thesis .
qed

lemma range_values_distinct: "keyed f m \<Longrightarrow> range_values m out \<Longrightarrow> distinct (map f out)"
  using range_values_keys[of f m out] mset_eq_imp_distinct_iff[of "map f out" "map fst m"]
  by (simp add: keyed_def)

lemma range_values_key_set: "keyed f m \<Longrightarrow> range_values m out \<Longrightarrow> f ` set out = fst ` set m"
  using range_values_keys[of f m out] mset_eq_setD[of "map f out" "map fst m"] by simp

lemma range_values_lookup:
  "keyed f m \<Longrightarrow> range_values m out \<Longrightarrow> v \<in> set out \<Longrightarrow> map_of m (f v) = Some v"
  by (simp add: range_values_set keyed_lookup)

lemma range_values_map_snd: "range_values m (map snd m)"
  by (simp add: range_values_def)

lemma fold_panic_append:
  "fold_panic f s (xs @ ys) =
     (case fold_panic f s xs of Inl e \<Rightarrow> Inl e | Inr s' \<Rightarrow> fold_panic f s' ys)"
  by (induction xs arbitrary: s) (auto split: sum.splits)

subsection \<open>Chunk series\<close>

lemma addChunkseries_keyed:
  "keyed (keyOf \<circ> Labels) m \<Longrightarrow> keyed (keyOf \<circ> Labels) (addChunkseries keyOf m s)"
  by (simp add: addChunkseries_def Let_def keyed_update)

lemma addChunkseries_keys:
  "fst ` set (addChunkseries keyOf m s) = insert (keyOf (Labels s)) (fst ` set m)"
  by (simp add: addChunkseries_def Let_def dom_update)

lemma addChunkseries_lookup:
  "lookup_chunks (addChunkseries keyOf m s) k =
     lookup_chunks m k @ (if keyOf (Labels s) = k then Chunks s else [])"
  by (simp add: addChunkseries_def Let_def lookup_chunks_def update_conv' split: option.splits)

lemma foldl_addChunkseries_keyed:
  "keyed (keyOf \<circ> Labels) m \<Longrightarrow> keyed (keyOf \<circ> Labels) (foldl (addChunkseries keyOf) m ss)"
  by (induction ss arbitrary: m) (simp_all add: addChunkseries_keyed)

lemma foldl_addChunkseries_keys:
  "fst ` set (foldl (addChunkseries keyOf) m ss) = fst ` set m \<union> (keyOf \<circ> Labels) ` set ss"
  by (induction ss arbitrary: m) (auto simp: addChunkseries_keys)

lemma foldl_addChunkseries_lookup:
  "lookup_chunks (foldl (addChunkseries keyOf) m ss) k =
     lookup_chunks m k @ concat (map Chunks (filter (\<lambda>s. keyOf (Labels s) = k) ss))"
  by (induction ss arbitrary: m) (simp_all add: addChunkseries_lookup)

subsection \<open>Time series\<close>

lemma merge_result_timestamps:
  assumes "mergeSamples a b = Inr r"
  shows "TimestampMs ` set r = TimestampMs ` set a \<union> TimestampMs ` set b"
proof (cases "list_all2 Sample_eq a b")
  case True
  then have "map TimestampMs a = map TimestampMs b" by (rule Sample_eq_timestamps)
  then have "TimestampMs ` set a = TimestampMs ` set b" by (metis set_map)
  moreover have "r = a" using assms True by (simp add: mergeSamples_eq)
  ultimately show ?thesis by simp
next
  case False
  then have "r = merge_lists a b" using assms by (simp add: mergeSamples_eq)
  then show ?thesis by (simp add: merge_lists_timestamps)
qed

lemma addTimeseries_update:
  "\<exists>v. addTimeseries keyOf m s = Inr (AList.update (keyOf (Labels_ts s)) v m) \<and>
     Labels_ts v = Labels_ts s \<and>
     TimestampMs ` set (slice_elems (Samples v)) =
       lookup_timestamps m (keyOf (Labels_ts s)) \<union> TimestampMs ` set (slice_elems (Samples s))"
proof (cases "map_of m (keyOf (Labels_ts s))")
  case None
  then show ?thesis
    by (intro exI[of _ "\<lparr>Labels_ts = Labels_ts s, Samples = Samples s\<rparr>"])
      (simp add: addTimeseries_def Let_def lookup_timestamps_def)
next
  case (Some e)
  show ?thesis
  proof (cases "Samples e")
    case None
    with Some show ?thesis
      by (intro exI[of _ "e\<lparr>Labels_ts := Labels_ts s, Samples := Samples s\<rparr>"])
        (simp add: addTimeseries_def Let_def lookup_timestamps_def slice_elems_def)
  next
    case (Some a)
    obtain r where r: "mergeSamples a (slice_elems (Samples s)) = Inr r"
      by (simp add: mergeSamples_eq)
    have "TimestampMs ` set r = TimestampMs ` set a \<union> TimestampMs ` set (slice_elems (Samples s))"
      using r by (rule merge_result_timestamps)
    with \<open>map_of m (keyOf (Labels_ts s)) = Some e\<close> Some r show ?thesis
      by (intro exI[of _ "e\<lparr>Labels_ts := Labels_ts s, Samples := Some r\<rparr>"])
        (simp add: addTimeseries_def Let_def lookup_timestamps_def slice_elems_def)
  qed
qed

lemma addTimeseries_Inr:
  "\<exists>m'. addTimeseries keyOf m s = Inr m'"
  using addTimeseries_update[of keyOf m s] by blast

lemma addTimeseries_keyed:
  "addTimeseries keyOf m s = Inr m' \<Longrightarrow> keyed (keyOf \<circ> Labels_ts) m \<Longrightarrow> keyed (keyOf \<circ> Labels_ts) m'"
  using addTimeseries_update[of keyOf m s] by (auto simp: keyed_update)

lemma addTimeseries_keys:
  "addTimeseries keyOf m s = Inr m' \<Longrightarrow> fst ` set m' = insert (keyOf (Labels_ts s)) (fst ` set m)"
proof -
  assume a: "addTimeseries keyOf m s = Inr m'"
  obtain v where "addTimeseries keyOf m s = Inr (AList.update (keyOf (Labels_ts s)) v m)"
    using addTimeseries_update[of keyOf m s] by blast
  with a have "m' = AList.update (keyOf (Labels_ts s)) v m" by simp
  then show ?thesis by (simp add: dom_update)
qed

lemma addTimeseries_lookup:
  assumes "addTimeseries keyOf m s = Inr m'"
  shows "lookup_timestamps m' k =
     lookup_timestamps m k \<union>
       (if keyOf (Labels_ts s) = k then TimestampMs ` set (slice_elems (Samples s)) else {})"
proof -
  obtain v where m': "m' = AList.update (keyOf (Labels_ts s)) v m"
    and v: "TimestampMs ` set (slice_elems (Samples v)) =
       lookup_timestamps m (keyOf (Labels_ts s)) \<union> TimestampMs ` set (slice_elems (Samples s))"
    using addTimeseries_update[of keyOf m s] assms by auto
  show ?thesis
  proof (cases "keyOf (Labels_ts s) = k")
    case True
    then have "lookup_timestamps m' k = TimestampMs ` set (slice_elems (Samples v))"
      by (simp add: m' lookup_timestamps_def update_conv')
    then show ?thesis using v True by simp
  next
    case False
    then show ?thesis by (simp add: m' lookup_timestamps_def update_conv')
  qed
qed

lemma fold_addTimeseries_Inr: "\<exists>m'. fold_panic (addTimeseries keyOf) m ss = Inr m'"
proof (induction ss arbitrary: m)
  case Nil
  show ?case by simp
next
  case (Cons s ss)
  obtain m1 where m1: "addTimeseries keyOf m s = Inr m1"
    using addTimeseries_Inr by blast
  show ?case using Cons.IH[of m1] m1 by simp
qed

lemma fold_addTimeseries_keyed:
  "fold_panic (addTimeseries keyOf) m ss = Inr m' \<Longrightarrow> keyed (keyOf \<circ> Labels_ts) m \<Longrightarrow>
   keyed (keyOf \<circ> Labels_ts) m'"
proof (induction ss arbitrary: m)
  case Nil
  then show ?case by simp
next
  case (Cons s ss)
  obtain m1 where m1: "addTimeseries keyOf m s = Inr m1"
    using addTimeseries_Inr by blast
  have "fold_panic (addTimeseries keyOf) m1 ss = Inr m'" using Cons.prems(1) m1 by simp
  moreover have "keyed (keyOf \<circ> Labels_ts) m1" using m1 Cons.prems(2) by (rule addTimeseries_keyed)
  ultimately show ?case by (rule Cons.IH)
qed

lemma fold_addTimeseries_keys:
  "fold_panic (addTimeseries keyOf) m ss = Inr m' \<Longrightarrow>
   fst ` set m' = fst ` set m \<union> (keyOf \<circ> Labels_ts) ` set ss"
proof (induction ss arbitrary: m)
  case Nil
  then show ?case by simp
next
  case (Cons s ss)
  obtain m1 where m1: "addTimeseries keyOf m s = Inr m1"
    using addTimeseries_Inr by blast
  have "fold_panic (addTimeseries keyOf) m1 ss = Inr m'" using Cons.prems m1 by simp
  then have "fst ` set m' = fst ` set m1 \<union> (keyOf \<circ> Labels_ts) ` set ss" by (rule Cons.IH)
  then show ?case by (simp add: addTimeseries_keys[OF m1])
qed

lemma fold_addTimeseries_lookup:
  "fold_panic (addTimeseries keyOf) m ss = Inr m' \<Longrightarrow>
   lookup_timestamps m' k =
     lookup_timestamps m k \<union>
       (\<Union>s \<in> set (filter (\<lambda>s. keyOf (Labels_ts s) = k) ss). TimestampMs ` set (slice_elems (Samples s)))"
proof (induction ss arbitrary: m)
  case Nil
  then show ?case by simp
next
  case (Cons s ss)
  obtain m1 where m1: "addTimeseries keyOf m s = Inr m1"
    using addTimeseries_Inr by blast
  have "fold_panic (addTimeseries keyOf) m1 ss = Inr m'" using Cons.prems m1 by simp
  then have "lookup_timestamps m' k =
     lookup_timestamps m1 k \<union>
       (\<Union>s \<in> set (filter (\<lambda>s. keyOf (Labels_ts s) = k) ss). TimestampMs ` set (slice_elems (Samples s)))"
    by (rule Cons.IH)
  then show ?case by (simp add: addTimeseries_lookup[OF m1] Un_assoc)
qed

subsection \<open>The maps of the streaming merge\<close>

lemma fold_addResponse:
  "\<exists>mt'. fold_panic (addTimeseries keyOf) mt (concat (map Timeseries results)) = Inr mt' \<and>
     fold_panic (addResponse keyOf) (mc, mt) results =
       Inr (foldl (addChunkseries keyOf) mc (concat (map Chunkseries results)), mt')"
proof (induction results arbitrary: mc mt)
  case Nil
  show ?case by simp
next
  case (Cons r rs)
  obtain mt1 where mt1: "fold_panic (addTimeseries keyOf) mt (Timeseries r) = Inr mt1"
    using fold_addTimeseries_Inr by blast
  obtain mt' where a: "fold_panic (addTimeseries keyOf) mt1 (concat (map Timeseries rs)) = Inr mt'"
    and b: "fold_panic (addResponse keyOf) (foldl (addChunkseries keyOf) mc (Chunkseries r), mt1) rs =
       Inr (foldl (addChunkseries keyOf) (foldl (addChunkseries keyOf) mc (Chunkseries r))
              (concat (map Chunkseries rs)), mt')"
    using Cons.IH[of mt1 "foldl (addChunkseries keyOf) mc (Chunkseries r)"] by blast
  have "fold_panic (addTimeseries keyOf) mt (concat (map Timeseries (r # rs))) = Inr mt'"
    using mt1 a by (simp add: fold_panic_append)
  moreover have "fold_panic (addResponse keyOf) (mc, mt) (r # rs) =
       Inr (foldl (addChunkseries keyOf) mc (concat (map Chunkseries (r # rs))), mt')"
    using mt1 b by (simp add: addResponse_def)
  ultimately show ?case by blast
qed

lemma queryIngesterStream_maps_Inr:
  "\<exists>mc mt. queryIngesterStream_maps keyOf results = Inr (mc, mt)"
  using fold_addResponse[of keyOf "[]" results "[]"] by (auto simp: queryIngesterStream_maps_def)

lemma queryIngesterStream_maps_chunks:
  "queryIngesterStream_maps keyOf results = Inr (mc, mt) \<Longrightarrow>
   mc = foldl (addChunkseries keyOf) [] (concat (map Chunkseries results))"
  using fold_addResponse[of keyOf "[]" results "[]"] by (auto simp: queryIngesterStream_maps_def)

lemma queryIngesterStream_maps_timeseries:
  "queryIngesterStream_maps keyOf results = Inr (mc, mt) \<Longrightarrow>
   fold_panic (addTimeseries keyOf) [] (concat (map Timeseries results)) = Inr mt"
  using fold_addResponse[of keyOf "[]" results "[]"] by (auto simp: queryIngesterStream_maps_def)

lemma lookup_chunks_Nil [simp]: "lookup_chunks [] k = []"
  by (simp add: lookup_chunks_def)

lemma lookup_timestamps_Nil [simp]: "lookup_timestamps [] k = {}"
  by (simp add: lookup_timestamps_def)

lemma streaming_chunk_map:
  assumes "queryIngesterStream_maps keyOf results = Inr (mc, mt)"
  shows "keyed (keyOf \<circ> Labels) mc"
    and "fst ` set mc = (keyOf \<circ> Labels) ` set (concat (map Chunkseries results))"
    and "lookup_chunks mc k =
       concat (map Chunks (filter (\<lambda>s. keyOf (Labels s) = k) (concat (map Chunkseries results))))"
proof -
  have mc: "mc = foldl (addChunkseries keyOf) [] (concat (map Chunkseries results))"
    using assms by (rule queryIngesterStream_maps_chunks)
  show "keyed (keyOf \<circ> Labels) mc" unfolding mc by (rule foldl_addChunkseries_keyed) simp
  show "fst ` set mc = (keyOf \<circ> Labels) ` set (concat (map Chunkseries results))"
    unfolding mc foldl_addChunkseries_keys by simp
  show "lookup_chunks mc k =
       concat (map Chunks (filter (\<lambda>s. keyOf (Labels s) = k) (concat (map Chunkseries results))))"
    unfolding mc foldl_addChunkseries_lookup by simp
qed

lemma streaming_timeseries_map:
  assumes "queryIngesterStream_maps keyOf results = Inr (mc, mt)"
  shows "keyed (keyOf \<circ> Labels_ts) mt"
    and "fst ` set mt = (keyOf \<circ> Labels_ts) ` set (concat (map Timeseries results))"
    and "lookup_timestamps mt k =
       (\<Union>s \<in> set (filter (\<lambda>s. keyOf (Labels_ts s) = k) (concat (map Timeseries results))).
          TimestampMs ` set (slice_elems (Samples s)))"
proof -
  have mt: "fold_panic (addTimeseries keyOf) [] (concat (map Timeseries results)) = Inr mt"
    using assms by (rule queryIngesterStream_maps_timeseries)
  show "keyed (keyOf \<circ> Labels_ts) mt" using mt by (rule fold_addTimeseries_keyed) simp
  show "fst ` set mt = (keyOf \<circ> Labels_ts) ` set (concat (map Timeseries results))"
    using fold_addTimeseries_keys[OF mt] by simp
  show "lookup_timestamps mt k =
       (\<Union>s \<in> set (filter (\<lambda>s. keyOf (Labels_ts s) = k) (concat (map Timeseries results))).
          TimestampMs ` set (slice_elems (Samples s)))"
    using fold_addTimeseries_lookup[OF mt, of k] by simp
qed

lemma queryIngesterStream_Inr_iff:
  "queryIngesterStream keyOf results (Inr resp) \<longleftrightarrow>
     (\<exists>mc mt. queryIngesterStream_maps keyOf results = Inr (mc, mt) \<and>
        range_values mc (Chunkseries resp) \<and> range_values mt (Timeseries resp))"
  using queryIngesterStream_maps_Inr[of keyOf results]
  by (auto simp: queryIngesterStream_def)

lemma queryIngesterStream_returns: "\<exists>resp. queryIngesterStream keyOf results (Inr resp)"
proof -
  obtain mc mt where m: "queryIngesterStream_maps keyOf results = Inr (mc, mt)"
    using queryIngesterStream_maps_Inr by blast
  have "queryIngesterStream keyOf results (Inr \<lparr>Chunkseries = map snd mc, Timeseries = map snd mt\<rparr>)"
    unfolding queryIngesterStream_Inr_iff using m by (simp add: range_values_map_snd)
  then show ?thesis ..
qed

lemma queryIngesterStream_no_panic: "\<not> queryIngesterStream keyOf results (Inl e)"
  using queryIngesterStream_maps_Inr[of keyOf results] by (auto simp: queryIngesterStream_def)

lemma response_chunks:
  assumes "queryIngesterStream keyOf results (Inr resp)" and "series \<in> set (Chunkseries resp)"
  shows "Chunks series =
     concat (map Chunks (filter (\<lambda>s. keyOf (Labels s) = keyOf (Labels series))
       (concat (map Chunkseries results))))"
proof -
  obtain mc mt where m: "queryIngesterStream_maps keyOf results = Inr (mc, mt)"
    and r: "range_values mc (Chunkseries resp)"
    using assms(1) unfolding queryIngesterStream_Inr_iff by blast
  have "map_of mc ((keyOf \<circ> Labels) series) = Some series"
    using streaming_chunk_map(1)[OF m] r assms(2) by (rule range_values_lookup)
  then have "lookup_chunks mc (keyOf (Labels series)) = Chunks series"
    by (simp add: lookup_chunks_def)
  then show ?thesis using streaming_chunk_map(3)[OF m, of "keyOf (Labels series)"] by simp
qed

lemma response_keys:
  assumes "queryIngesterStream keyOf results (Inr resp)"
  shows "(keyOf \<circ> Labels) ` set (Chunkseries resp) =
           (keyOf \<circ> Labels) ` set (concat (map Chunkseries results))"
    and "(keyOf \<circ> Labels_ts) ` set (Timeseries resp) =
           (keyOf \<circ> Labels_ts) ` set (concat (map Timeseries results))"
    and "distinct (map (keyOf \<circ> Labels) (Chunkseries resp))"
    and "distinct (map (keyOf \<circ> Labels_ts) (Timeseries resp))"
proof -
  obtain mc mt where m: "queryIngesterStream_maps keyOf results = Inr (mc, mt)"
    and rc: "range_values mc (Chunkseries resp)" and rt: "range_values mt (Timeseries resp)"
    using assms(1) unfolding queryIngesterStream_Inr_iff by blast
  show "(keyOf \<circ> Labels) ` set (Chunkseries resp) =
           (keyOf \<circ> Labels) ` set (concat (map Chunkseries results))"
    using range_values_key_set[OF streaming_chunk_map(1)[OF m] rc] streaming_chunk_map(2)[OF m]
    by simp
  show "(keyOf \<circ> Labels_ts) ` set (Timeseries resp) =
           (keyOf \<circ> Labels_ts) ` set (concat (map Timeseries results))"
    using range_values_key_set[OF streaming_timeseries_map(1)[OF m] rt]
      streaming_timeseries_map(2)[OF m]
    by simp
  show "distinct (map (keyOf \<circ> Labels) (Chunkseries resp))"
    using streaming_chunk_map(1)[OF m] rc by (rule range_values_distinct)
  show "distinct (map (keyOf \<circ> Labels_ts) (Timeseries resp))"
    using streaming_timeseries_map(1)[OF m] rt by (rule range_values_distinct)
qed

subsection \<open>The map of the batch merge\<close>

lemma addSampleStream_keyed:
  assumes "keyed (fingerprint \<circ> Metric) m"
  shows "keyed (fingerprint \<circ> Metric) (addSampleStream fingerprint mergeSampleSets m ss)"
proof (cases "map_of m (fingerprint (Metric ss))")
  case None
  then show ?thesis using assms by (simp add: addSampleStream_def Let_def keyed_update)
next
  case (Some mss)
  then have "fingerprint (Metric mss) = fingerprint (Metric ss)"
    using assms by (auto simp: keyed_iff_map_of)
  then show ?thesis using Some assms by (simp add: addSampleStream_def Let_def keyed_update)
qed

lemma addSampleStream_keys:
  "fst ` set (addSampleStream fingerprint mergeSampleSets m ss) =
     insert (fingerprint (Metric ss)) (fst ` set m)"
  by (simp add: addSampleStream_def Let_def dom_update)

lemma foldl_addSampleStream_keyed:
  "keyed (fingerprint \<circ> Metric) m \<Longrightarrow>
   keyed (fingerprint \<circ> Metric) (foldl (addSampleStream fingerprint mergeSampleSets) m result)"
  by (induction result arbitrary: m) (simp_all add: addSampleStream_keyed)

lemma foldl_addSampleStream_keys:
  "fst ` set (foldl (addSampleStream fingerprint mergeSampleSets) m result) =
     fst ` set m \<union> (fingerprint \<circ> Metric) ` set result"
  by (induction result arbitrary: m) (auto simp: addSampleStream_keys)

lemma foldl_results_keyed:
  "keyed (fingerprint \<circ> Metric) m \<Longrightarrow>
   keyed (fingerprint \<circ> Metric)
     (foldl (\<lambda>m result. foldl (addSampleStream fingerprint mergeSampleSets) m result) m results)"
  by (induction results arbitrary: m) (simp_all add: foldl_addSampleStream_keyed)

lemma foldl_results_keys:
  "fst ` set (foldl (\<lambda>m result. foldl (addSampleStream fingerprint mergeSampleSets) m result) m results) =
     fst ` set m \<union> (fingerprint \<circ> Metric) ` set (concat results)"
  by (induction results arbitrary: m) (auto simp: foldl_addSampleStream_keys)

lemma queryIngesters_map_keyed:
  "keyed (fingerprint \<circ> Metric) (queryIngesters_map fingerprint mergeSampleSets results)"
  unfolding queryIngesters_map_def by (rule foldl_results_keyed) simp

lemma queryIngesters_map_keys:
  "fst ` set (queryIngesters_map fingerprint mergeSampleSets results) =
     (fingerprint \<circ> Metric) ` set (concat results)"
  unfolding queryIngesters_map_def foldl_results_keys by simp

lemma matrix_keys:
  assumes "queryIngesters fingerprint mergeSampleSets results matrix"
  shows "(fingerprint \<circ> Metric) ` set matrix = (fingerprint \<circ> Metric) ` set (concat results)"
    and "distinct (map (fingerprint \<circ> Metric) matrix)"
proof -
  have r: "range_values (queryIngesters_map fingerprint mergeSampleSets results) matrix"
    using assms by (simp add: queryIngesters_def)
  show "(fingerprint \<circ> Metric) ` set matrix = (fingerprint \<circ> Metric) ` set (concat results)"
    using range_values_key_set[OF queryIngesters_map_keyed r] queryIngesters_map_keys by metis
  show "distinct (map (fingerprint \<circ> Metric) matrix)"
    using queryIngesters_map_keyed r by (rule range_values_distinct)
qed

lemma queryIngesters_returns: "\<exists>matrix. queryIngesters fingerprint mergeSampleSets results matrix"
  unfolding queryIngesters_def using range_values_map_snd by blast

subsection \<open>Rearranging the results\<close>

lemma mset_concat_cong: "mset xss = mset yss \<Longrightarrow> mset (concat xss) = mset (concat yss)"
proof -
  assume a: "mset xss = mset yss"
  have "\<And>zss :: 'a list list. mset (concat zss) = sum_mset (image_mset mset (mset zss))"
    by (simp add: mset_concat flip: sum_mset_sum_list)
  then show ?thesis using a by simp
qed

lemma mset_concat_map_cong:
  "mset rs' = mset rs \<Longrightarrow> mset (concat (map f rs')) = mset (concat (map f rs))"
  by (rule mset_concat_cong) simp

lemma set_concat_map_cong:
  "mset rs' = mset rs \<Longrightarrow> set (concat (map f rs')) = set (concat (map f rs))"
  using mset_concat_map_cong[of rs' rs f] by (rule mset_eq_setD)

lemma distinct_keys_length:
  assumes "distinct (map f xs)" and "distinct (map f ys)" and "f ` set xs = f ` set ys"
  shows "length xs = length ys"
proof -
  have "length xs = card (set (map f xs))" using distinct_card[OF assms(1)] by simp
  also have "\<dots> = card (set (map f ys))" using assms(3) by simp
  also have "\<dots> = length ys" using distinct_card[OF assms(2)] by simp
  finally show ?thesis .
qed

lemma mset_chunks_cong:
  assumes "mset xs' = mset xs"
  shows "mset (concat (map Chunks (filter P xs'))) = mset (concat (map Chunks (filter P xs)))"
proof (rule mset_concat_cong)
  show "mset (map Chunks (filter P xs')) = mset (map Chunks (filter P xs))"
    using assms by simp
qed

subsection \<open>The merge of two series\<close>

lemma merge_lists_merge_by: "merge_lists a b = merge_by TimestampMs a b"
  by (induction a b rule: merge_lists.induct) simp_all

lemma merge_by_Nil2 [simp]: "merge_by ts a [] = a"
  by (cases a) simp_all

lemma merge_by_subset: "set (merge_by ts a b) \<subseteq> set a \<union> set b"
  by (induction ts a b rule: merge_by.induct) auto

lemma merge_by_commute:
  "inj_on ts (set a \<union> set b) \<Longrightarrow> merge_by ts a b = merge_by ts b a"
proof (induction ts a b rule: merge_by.induct)
  case (1 ts ys)
  show ?case by simp
next
  case (2 ts x xs)
  show ?case by simp
next
  case (3 ts x xs y ys)
  have i1: "inj_on ts (set xs \<union> set (y # ys))"
    by (rule inj_on_subset[OF "3.prems"]) auto
  have i2: "inj_on ts (set (x # xs) \<union> set ys)"
    by (rule inj_on_subset[OF "3.prems"]) auto
  have i3: "inj_on ts (set xs \<union> set ys)"
    by (rule inj_on_subset[OF "3.prems"]) auto
  consider (lt) "ts x < ts y" | (gt) "ts x > ts y" | (eq) "ts x = ts y" by linarith
  then show ?case
  proof cases
    case lt
    then show ?thesis using "3.IH"(1)[OF lt i1] by simp
  next
    case gt
    then have "\<not> ts x < ts y" by simp
    then show ?thesis using "3.IH"(2)[OF _ gt i2] gt by simp
  next
    case eq
    then have n: "\<not> ts x < ts y" "\<not> ts y < ts x" by simp_all
    have "x = y" using inj_onD[OF "3.prems" eq] by simp
    then show ?thesis using "3.IH"(3)[OF n i3] eq by simp
  qed
qed

lemma merge_by_assoc_length:
  "length a + length b + length c = n \<Longrightarrow> inj_on ts (set a \<union> set b \<union> set c) \<Longrightarrow>
   merge_by ts (merge_by ts a b) c = merge_by ts a (merge_by ts b c)"
proof (induction n arbitrary: a b c rule: less_induct)
  case (less n)
  show ?case
  proof (cases a)
    case Nil
    then show ?thesis by simp
  next
    case a: (Cons x xs)
    show ?thesis
    proof (cases b)
      case Nil
      then show ?thesis by simp
    next
      case b: (Cons y ys)
      show ?thesis
      proof (cases c)
        case Nil
        then show ?thesis by simp
      next
        case c: (Cons z zs)
        have inj: "inj_on ts (insert x (insert y (insert z (set xs \<union> set ys \<union> set zs))))"
          by (rule inj_on_subset[OF less.prems(2)]) (auto simp: a b c)
        have xy: "ts x = ts y \<Longrightarrow> x = y" and yz: "ts y = ts z \<Longrightarrow> y = z"
          and xz: "ts x = ts z \<Longrightarrow> x = z"
          using inj by (auto dest: inj_onD)
        have IH: "\<And>a' b' c'. length a' + length b' + length c' < n \<Longrightarrow>
            set a' \<subseteq> set a \<Longrightarrow> set b' \<subseteq> set b \<Longrightarrow> set c' \<subseteq> set c \<Longrightarrow>
            merge_by ts (merge_by ts a' b') c' = merge_by ts a' (merge_by ts b' c')"
        proof -
          fix a' b' c' :: "'a list"
          assume l: "length a' + length b' + length c' < n"
            and s: "set a' \<subseteq> set a" "set b' \<subseteq> set b" "set c' \<subseteq> set c"
          have "inj_on ts (set a' \<union> set b' \<union> set c')"
            by (rule inj_on_subset[OF less.prems(2)]) (use s in auto)
          then show "merge_by ts (merge_by ts a' b') c' = merge_by ts a' (merge_by ts b' c')"
            using less.IH[OF l refl] by simp
        qed
        have n: "n = Suc (length xs) + Suc (length ys) + Suc (length zs)"
          using less.prems(1) by (simp add: a b c)
        have i1: "merge_by ts (merge_by ts xs (y # ys)) (z # zs) =
            merge_by ts xs (merge_by ts (y # ys) (z # zs))"
          by (rule IH) (auto simp: n a b c)
        have i2: "merge_by ts (merge_by ts (x # xs) ys) (z # zs) =
            merge_by ts (x # xs) (merge_by ts ys (z # zs))"
          by (rule IH) (auto simp: n a b c)
        have i3: "merge_by ts (merge_by ts (x # xs) (y # ys)) zs =
            merge_by ts (x # xs) (merge_by ts (y # ys) zs)"
          by (rule IH) (auto simp: n a b c)
        have i4: "merge_by ts (merge_by ts xs ys) (z # zs) =
            merge_by ts xs (merge_by ts ys (z # zs))"
          by (rule IH) (auto simp: n a b c)
        have i5: "merge_by ts (merge_by ts xs (y # ys)) zs =
            merge_by ts xs (merge_by ts (y # ys) zs)"
          by (rule IH) (auto simp: n a b c)
        have i6: "merge_by ts (merge_by ts (x # xs) ys) zs =
            merge_by ts (x # xs) (merge_by ts ys zs)"
          by (rule IH) (auto simp: n a b c)
        have i7: "merge_by ts (merge_by ts xs ys) zs =
            merge_by ts xs (merge_by ts ys zs)"
          by (rule IH) (auto simp: n a b c)
        consider (xy) "ts x < ts y" | (yx) "ts y < ts x" | (exy) "ts x = ts y" by linarith
        then show ?thesis
        proof cases
          case xy
          consider (xz) "ts x < ts z" | (zx) "ts z < ts x" | (exz) "ts x = ts z" by linarith
          then show ?thesis
          proof cases
            case xz
            consider (yz) "ts y < ts z" | (zy) "ts z < ts y" | (eyz) "ts y = ts z" by linarith
            then show ?thesis
            proof cases
              case yz
              then show ?thesis using xy xz i1 by (simp add: a b c)
            next
              case zy
              then show ?thesis using xy xz i1 by (simp add: a b c)
            next
              case eyz
              then show ?thesis using xy xz i1 by (simp add: a b c)
            qed
          next
            case zx
            then have zy: "ts z < ts y" using xy by simp
            have "merge_by ts (x # merge_by ts xs (y # ys)) zs =
                merge_by ts (x # xs) (merge_by ts (y # ys) zs)"
              using i3 xy by simp
            then show ?thesis using xy zx zy by (simp add: a b c)
          next
            case exz
            then have zy: "ts z < ts y" using xy by simp
            have "x = z" using exz by (rule xz)
            then show ?thesis using xy zy i5 by (simp add: a b c)
          qed
        next
          case yx
          consider (yz) "ts y < ts z" | (zy) "ts z < ts y" | (eyz) "ts y = ts z" by linarith
          then show ?thesis
          proof cases
            case yz
            then show ?thesis using yx i2 by (simp add: a b c)
          next
            case zy
            then have zx: "ts z < ts x" using yx by simp
            have "merge_by ts (y # merge_by ts (x # xs) ys) zs =
                merge_by ts (x # xs) (merge_by ts (y # ys) zs)"
              using i3 yx by simp
            then show ?thesis using yx zy zx by (simp add: a b c)
          next
            case eyz
            then have zx: "ts z < ts x" using yx by simp
            have "y = z" using eyz by (rule yz)
            then show ?thesis using yx zx i6 by (simp add: a b c)
          qed
        next
          case exy
          have e: "x = y" using exy by (rule xy)
          consider (xz) "ts x < ts z" | (zx) "ts z < ts x" | (exz) "ts x = ts z" by linarith
          then show ?thesis
          proof cases
            case xz
            then show ?thesis using e i4 by (simp add: a b c)
          next
            case zx
            have "merge_by ts (x # merge_by ts xs ys) zs =
                merge_by ts (x # xs) (merge_by ts (x # ys) zs)"
              using i3 e by simp
            then show ?thesis using e zx by (simp add: a b c)
          next
            case exz
            have "x = z" using exz by (rule xz)
            then show ?thesis using e i7 by (simp add: a b c)
          qed
        qed
      qed
    qed
  qed
qed

lemma merge_by_assoc:
  "inj_on ts (set a \<union> set b \<union> set c) \<Longrightarrow>
   merge_by ts (merge_by ts a b) c = merge_by ts a (merge_by ts b c)"
  by (rule merge_by_assoc_length[OF refl])

subsection \<open>Folding the merge over the series of the replicas\<close>

lemma agree_inj_on: "agree ts xss = inj_on ts (set (concat xss))"
  unfolding agree_def inj_on_def by blast

lemma foldl_merge_by_subset:
  "set (foldl (merge_by ts) acc xss) \<subseteq> set acc \<union> set (concat xss)"
proof (induction xss arbitrary: acc)
  case Nil
  show ?case by simp
next
  case (Cons xs xss)
  have "set (foldl (merge_by ts) (merge_by ts acc xs) xss) \<subseteq>
      set (merge_by ts acc xs) \<union> set (concat xss)"
    by (rule Cons.IH)
  also have "\<dots> \<subseteq> (set acc \<union> set xs) \<union> set (concat xss)"
    using merge_by_subset[of ts acc xs] by blast
  finally show ?case by (simp add: Un_assoc)
qed

lemma foldr_merge_by_subset: "set (foldr (merge_by ts) xss []) \<subseteq> set (concat xss)"
proof (induction xss)
  case Nil
  show ?case by simp
next
  case (Cons xs xss)
  have "set (merge_by ts xs (foldr (merge_by ts) xss [])) \<subseteq>
      set xs \<union> set (foldr (merge_by ts) xss [])"
    by (rule merge_by_subset)
  then show ?case using Cons.IH by auto
qed

lemma foldl_merge_by_foldr:
  "inj_on ts (set acc \<union> set (concat xss)) \<Longrightarrow>
   foldl (merge_by ts) acc xss = merge_by ts acc (foldr (merge_by ts) xss [])"
proof (induction xss arbitrary: acc)
  case Nil
  show ?case by simp
next
  case (Cons xs xss)
  have s: "set (foldr (merge_by ts) xss []) \<subseteq> set (concat xss)"
    by (rule foldr_merge_by_subset)
  have "inj_on ts (set (merge_by ts acc xs) \<union> set (concat xss))"
    by (rule inj_on_subset[OF Cons.prems]) (use merge_by_subset[of ts acc xs] in auto)
  then have "foldl (merge_by ts) (merge_by ts acc xs) xss =
      merge_by ts (merge_by ts acc xs) (foldr (merge_by ts) xss [])"
    by (rule Cons.IH)
  also have "\<dots> = merge_by ts acc (merge_by ts xs (foldr (merge_by ts) xss []))"
  proof (rule merge_by_assoc)
    show "inj_on ts (set acc \<union> set xs \<union> set (foldr (merge_by ts) xss []))"
      by (rule inj_on_subset[OF Cons.prems]) (use s in auto)
  qed
  finally show ?case by simp
qed

lemma foldr_merge_by_insert:
  "inj_on ts (set xs \<union> set (concat (ys1 @ ys2))) \<Longrightarrow>
   foldr (merge_by ts) (ys1 @ xs # ys2) [] = merge_by ts xs (foldr (merge_by ts) (ys1 @ ys2) [])"
proof (induction ys1)
  case Nil
  show ?case by simp
next
  case (Cons y ys1)
  let ?r = "foldr (merge_by ts) (ys1 @ ys2) []"
  have r: "set ?r \<subseteq> set (concat (ys1 @ ys2))" by (rule foldr_merge_by_subset)
  have i: "inj_on ts (set xs \<union> set y \<union> set ?r)"
    by (rule inj_on_subset[OF Cons.prems]) (use r in auto)
  have "inj_on ts (set xs \<union> set (concat (ys1 @ ys2)))"
    by (rule inj_on_subset[OF Cons.prems]) auto
  then have "foldr (merge_by ts) (ys1 @ xs # ys2) [] = merge_by ts xs ?r" by (rule Cons.IH)
  then have "foldr (merge_by ts) ((y # ys1) @ xs # ys2) [] = merge_by ts y (merge_by ts xs ?r)"
    by simp
  also have "\<dots> = merge_by ts (merge_by ts y xs) ?r"
    by (rule merge_by_assoc[symmetric]) (rule inj_on_subset[OF i], auto)
  also have "merge_by ts y xs = merge_by ts xs y"
    by (rule merge_by_commute) (rule inj_on_subset[OF i], auto)
  also have "merge_by ts (merge_by ts xs y) ?r = merge_by ts xs (merge_by ts y ?r)"
    by (rule merge_by_assoc) (rule inj_on_subset[OF i], auto)
  finally show ?case by simp
qed

lemma foldr_merge_by_perm:
  "mset xss = mset yss \<Longrightarrow> inj_on ts (set (concat xss)) \<Longrightarrow>
   foldr (merge_by ts) xss [] = foldr (merge_by ts) yss []"
proof (induction xss arbitrary: yss)
  case Nil
  then show ?case by simp
next
  case (Cons xs xss)
  have "xs \<in> set yss" using Cons.prems(1) by (metis list.set_intros(1) mset_eq_setD)
  then obtain ys1 ys2 where y: "yss = ys1 @ xs # ys2" by (meson split_list)
  have m: "mset xss = mset (ys1 @ ys2)" using Cons.prems(1) by (simp add: y)
  have c: "set (concat (ys1 @ ys2)) = set (concat xss)"
    using mset_concat_cong[OF m] by (metis mset_eq_setD)
  have "inj_on ts (set (concat xss))"
    by (rule inj_on_subset[OF Cons.prems(2)]) auto
  then have "foldr (merge_by ts) xss [] = foldr (merge_by ts) (ys1 @ ys2) []"
    using m by (intro Cons.IH)
  moreover have "foldr (merge_by ts) (ys1 @ xs # ys2) [] =
      merge_by ts xs (foldr (merge_by ts) (ys1 @ ys2) [])"
  proof (rule foldr_merge_by_insert)
    have "set xs \<union> set (concat (ys1 @ ys2)) \<subseteq> set (concat (xs # xss))"
      unfolding c by auto
    then show "inj_on ts (set xs \<union> set (concat (ys1 @ ys2)))"
      by (rule inj_on_subset[OF Cons.prems(2)])
  qed
  ultimately show ?case by (simp add: y)
qed

lemma foldl_merge_by_perm:
  assumes "mset xss' = mset xss" and "agree ts xss"
  shows "foldl (merge_by ts) [] xss' = foldl (merge_by ts) [] xss"
proof -
  have c: "set (concat xss') = set (concat xss)"
    using mset_concat_cong[OF assms(1)] by (rule mset_eq_setD)
  have i: "inj_on ts (set (concat xss))" using assms(2) by (simp add: agree_inj_on)
  have i': "inj_on ts (set (concat xss'))" using i by (simp only: c)
  have "foldl (merge_by ts) [] xss' = merge_by ts [] (foldr (merge_by ts) xss' [])"
    by (rule foldl_merge_by_foldr) (use i' in simp)
  also have "\<dots> = foldr (merge_by ts) xss' []" by simp
  also have "\<dots> = foldr (merge_by ts) xss []"
    using assms(1) i' by (rule foldr_merge_by_perm)
  also have "\<dots> = merge_by ts [] (foldr (merge_by ts) xss [])" by simp
  also have "\<dots> = foldl (merge_by ts) [] xss"
    by (rule foldl_merge_by_foldr[symmetric]) (use i in simp)
  finally show ?thesis .
qed

lemma merge_by_map:
  "map ts (merge_by ts a b) = merge_by (\<lambda>t. t) (map ts a) (map ts b)"
  by (induction ts a b rule: merge_by.induct) simp_all

lemma foldl_merge_by_map:
  "map ts (foldl (merge_by ts) acc xss) =
     foldl (merge_by (\<lambda>t. t)) (map ts acc) (map (map ts) xss)"
  by (induction xss arbitrary: acc) (simp_all add: merge_by_map)

lemma foldl_merge_by_rearranged:
  assumes "mset xss' = mset xss"
  shows "map ts (foldl (merge_by ts) [] xss') = map ts (foldl (merge_by ts) [] xss)"
    and "i < length (foldl (merge_by ts) [] xss) \<Longrightarrow>
         agree_at ts xss (ts (foldl (merge_by ts) [] xss ! i)) \<Longrightarrow>
         foldl (merge_by ts) [] xss' ! i = foldl (merge_by ts) [] xss ! i"
    and "agree ts xss \<Longrightarrow> foldl (merge_by ts) [] xss' = foldl (merge_by ts) [] xss"
proof -
  let ?r = "foldl (merge_by ts) [] xss" and ?r' = "foldl (merge_by ts) [] xss'"
  have c: "set (concat xss') = set (concat xss)"
    using mset_concat_cong[OF assms] by (rule mset_eq_setD)
  have "mset (map (map ts) xss') = mset (map (map ts) xss)" using assms by simp
  moreover have "agree (\<lambda>t. t) (map (map ts) xss)" by (simp add: agree_inj_on)
  ultimately have "foldl (merge_by (\<lambda>t. t)) [] (map (map ts) xss') =
      foldl (merge_by (\<lambda>t. t)) [] (map (map ts) xss)"
    by (rule foldl_merge_by_perm)
  then show m: "map ts ?r' = map ts ?r" by (simp add: foldl_merge_by_map)
  show "?r' ! i = ?r ! i" if i: "i < length ?r" and a: "agree_at ts xss (ts (?r ! i))"
  proof -
    have l: "length ?r' = length ?r" using m by (rule map_eq_imp_length_eq)
    have "map ts ?r' ! i = map ts ?r ! i" using m by simp
    then have t: "ts (?r' ! i) = ts (?r ! i)" using i l by simp
    have "?r ! i \<in> set ?r" using i by simp
    then have p: "?r ! i \<in> set (concat xss)"
      using foldl_merge_by_subset[of ts "[]" xss] by auto
    have "?r' ! i \<in> set ?r'" using i l by simp
    then have "?r' ! i \<in> set (concat xss')"
      using foldl_merge_by_subset[of ts "[]" xss'] by auto
    then have q: "?r' ! i \<in> set (concat xss)" by (simp only: c)
    show ?thesis using a p q t unfolding agree_at_def by blast
  qed
  show "?r' = ?r" if "agree ts xss"
    using assms that by (rule foldl_merge_by_perm)
qed

lemma update_values_subset: "snd ` set (AList.update k v m) \<subseteq> insert v (snd ` set m)"
  by (induction m) auto

subsection \<open>Labels of the merged series\<close>

lemma addChunkseries_labels:
  "Labels ` snd ` set (addChunkseries keyOf m s) \<subseteq> insert (Labels s) (Labels ` snd ` set m)"
proof -
  obtain v where v: "addChunkseries keyOf m s = AList.update (keyOf (Labels s)) v m"
    and l: "Labels v = Labels s"
    by (simp add: addChunkseries_def Let_def)
  have "Labels ` snd ` set (AList.update (keyOf (Labels s)) v m) \<subseteq> Labels ` insert v (snd ` set m)"
    by (rule image_mono) (rule update_values_subset)
  then show ?thesis using v l by simp
qed

lemma foldl_addChunkseries_labels:
  "Labels ` snd ` set (foldl (addChunkseries keyOf) m ss) \<subseteq> Labels ` snd ` set m \<union> Labels ` set ss"
proof (induction ss arbitrary: m)
  case Nil
  show ?case by simp
next
  case (Cons s ss)
  have "Labels ` snd ` set (foldl (addChunkseries keyOf) (addChunkseries keyOf m s) ss) \<subseteq>
      Labels ` snd ` set (addChunkseries keyOf m s) \<union> Labels ` set ss"
    by (rule Cons.IH)
  also have "\<dots> \<subseteq> insert (Labels s) (Labels ` snd ` set m) \<union> Labels ` set ss"
    using addChunkseries_labels[of keyOf m s] by blast
  finally show ?case by auto
qed

lemma addTimeseries_labels:
  assumes "addTimeseries keyOf m s = Inr m'"
  shows "Labels_ts ` snd ` set m' \<subseteq> insert (Labels_ts s) (Labels_ts ` snd ` set m)"
proof -
  obtain v where v: "m' = AList.update (keyOf (Labels_ts s)) v m"
    and l: "Labels_ts v = Labels_ts s"
    using addTimeseries_update[of keyOf m s] assms by auto
  have "Labels_ts ` snd ` set (AList.update (keyOf (Labels_ts s)) v m) \<subseteq>
      Labels_ts ` insert v (snd ` set m)"
    by (rule image_mono) (rule update_values_subset)
  then show ?thesis using v l by simp
qed

lemma fold_addTimeseries_labels:
  "fold_panic (addTimeseries keyOf) m ss = Inr m' \<Longrightarrow>
   Labels_ts ` snd ` set m' \<subseteq> Labels_ts ` snd ` set m \<union> Labels_ts ` set ss"
proof (induction ss arbitrary: m)
  case Nil
  then show ?case by simp
next
  case (Cons s ss)
  obtain m1 where m1: "addTimeseries keyOf m s = Inr m1"
    using addTimeseries_Inr by blast
  have "fold_panic (addTimeseries keyOf) m1 ss = Inr m'" using Cons.prems m1 by simp
  then have "Labels_ts ` snd ` set m' \<subseteq> Labels_ts ` snd ` set m1 \<union> Labels_ts ` set ss"
    by (rule Cons.IH)
  also have "\<dots> \<subseteq> insert (Labels_ts s) (Labels_ts ` snd ` set m) \<union> Labels_ts ` set ss"
    using addTimeseries_labels[OF m1] by blast
  finally show ?case by auto
qed

lemma response_chunk_labels:
  assumes "queryIngesterStream keyOf results (Inr resp)" and "series \<in> set (Chunkseries resp)"
  shows "Labels series \<in> Labels ` set (concat (map Chunkseries results))"
proof -
  obtain mc mt where m: "queryIngesterStream_maps keyOf results = Inr (mc, mt)"
    and r: "range_values mc (Chunkseries resp)"
    using assms(1) unfolding queryIngesterStream_Inr_iff by blast
  have "mc = foldl (addChunkseries keyOf) [] (concat (map Chunkseries results))"
    using m by (rule queryIngesterStream_maps_chunks)
  then have "Labels ` snd ` set mc \<subseteq> Labels ` set (concat (map Chunkseries results))"
    using foldl_addChunkseries_labels[of keyOf "[]" "concat (map Chunkseries results)"] by simp
  moreover have "series \<in> snd ` set mc" using range_values_set[OF r] assms(2) by simp
  ultimately show ?thesis by blast
qed

lemma response_timeseries_labels:
  assumes "queryIngesterStream keyOf results (Inr resp)" and "series \<in> set (Timeseries resp)"
  shows "Labels_ts series \<in> Labels_ts ` set (concat (map Timeseries results))"
proof -
  obtain mc mt where m: "queryIngesterStream_maps keyOf results = Inr (mc, mt)"
    and r: "range_values mt (Timeseries resp)"
    using assms(1) unfolding queryIngesterStream_Inr_iff by blast
  have "fold_panic (addTimeseries keyOf) [] (concat (map Timeseries results)) = Inr mt"
    using m by (rule queryIngesterStream_maps_timeseries)
  then have "Labels_ts ` snd ` set mt \<subseteq> Labels_ts ` set (concat (map Timeseries results))"
    using fold_addTimeseries_labels[of keyOf "[]" "concat (map Timeseries results)" mt] by simp
  moreover have "series \<in> snd ` set mt" using range_values_set[OF r] assms(2) by simp
  ultimately show ?thesis by blast
qed

subsection \<open>Samples of the merged series\<close>

lemma merge_lists_Sample_eq: "list_all2 Sample_eq a b \<Longrightarrow> merge_lists a b = a"
  by (induction a b rule: list_all2_induct) (simp_all add: Sample_eq_def)

lemma mergeSamples_merge_lists: "mergeSamples a b = Inr (merge_lists a b)"
  by (simp add: mergeSamples_eq merge_lists_Sample_eq)

lemma lookup_samples_Nil [simp]: "lookup_samples [] k = []"
  by (simp add: lookup_samples_def)

lemma addTimeseries_samples:
  "\<exists>v. addTimeseries keyOf m s = Inr (AList.update (keyOf (Labels_ts s)) v m) \<and>
     slice_elems (Samples v) =
       merge_lists (lookup_samples m (keyOf (Labels_ts s))) (slice_elems (Samples s))"
proof (cases "map_of m (keyOf (Labels_ts s))")
  case None
  then show ?thesis
    by (intro exI[of _ "\<lparr>Labels_ts = Labels_ts s, Samples = Samples s\<rparr>"])
      (simp add: addTimeseries_def Let_def lookup_samples_def)
next
  case (Some e)
  show ?thesis
  proof (cases "Samples e")
    case None
    with Some show ?thesis
      by (intro exI[of _ "e\<lparr>Labels_ts := Labels_ts s, Samples := Samples s\<rparr>"])
        (simp add: addTimeseries_def Let_def lookup_samples_def slice_elems_def)
  next
    case (Some a)
    with \<open>map_of m (keyOf (Labels_ts s)) = Some e\<close> show ?thesis
      by (intro exI[of _ "e\<lparr>Labels_ts := Labels_ts s,
            Samples := Some (merge_lists a (slice_elems (Samples s)))\<rparr>"])
        (simp add: addTimeseries_def Let_def lookup_samples_def slice_elems_def
          mergeSamples_merge_lists)
  qed
qed

lemma addTimeseries_lookup_samples:
  assumes "addTimeseries keyOf m s = Inr m'"
  shows "lookup_samples m' k =
     (if keyOf (Labels_ts s) = k
      then merge_lists (lookup_samples m k) (slice_elems (Samples s))
      else lookup_samples m k)"
proof -
  obtain v where m': "m' = AList.update (keyOf (Labels_ts s)) v m"
    and v: "slice_elems (Samples v) =
       merge_lists (lookup_samples m (keyOf (Labels_ts s))) (slice_elems (Samples s))"
    using addTimeseries_samples[of keyOf m s] assms by auto
  show ?thesis
  proof (cases "keyOf (Labels_ts s) = k")
    case True
    then have "lookup_samples m' k = slice_elems (Samples v)"
      by (simp add: m' lookup_samples_def update_conv')
    then show ?thesis using v True by simp
  next
    case False
    then show ?thesis by (simp add: m' lookup_samples_def update_conv')
  qed
qed

lemma fold_addTimeseries_lookup_samples:
  "fold_panic (addTimeseries keyOf) m ss = Inr m' \<Longrightarrow>
   lookup_samples m' k =
     foldl merge_lists (lookup_samples m k)
       (map (\<lambda>s. slice_elems (Samples s)) (filter (\<lambda>s. keyOf (Labels_ts s) = k) ss))"
proof (induction ss arbitrary: m)
  case Nil
  then show ?case by simp
next
  case (Cons s ss)
  obtain m1 where m1: "addTimeseries keyOf m s = Inr m1"
    using addTimeseries_Inr by blast
  have "fold_panic (addTimeseries keyOf) m1 ss = Inr m'" using Cons.prems m1 by simp
  then have "lookup_samples m' k =
     foldl merge_lists (lookup_samples m1 k)
       (map (\<lambda>s. slice_elems (Samples s)) (filter (\<lambda>s. keyOf (Labels_ts s) = k) ss))"
    by (rule Cons.IH)
  then show ?case by (simp add: addTimeseries_lookup_samples[OF m1])
qed

lemma merge_lists_is_merge_by: "merge_lists = merge_by TimestampMs"
  by (intro ext) (rule merge_lists_merge_by)

lemma response_samples:
  assumes "queryIngesterStream keyOf results (Inr resp)" and "series \<in> set (Timeseries resp)"
  shows "slice_elems (Samples series) =
     foldl (merge_by TimestampMs) [] (contributed_samples keyOf results (keyOf (Labels_ts series)))"
proof -
  obtain mc mt where m: "queryIngesterStream_maps keyOf results = Inr (mc, mt)"
    and r: "range_values mt (Timeseries resp)"
    using assms(1) unfolding queryIngesterStream_Inr_iff by blast
  have f: "fold_panic (addTimeseries keyOf) [] (concat (map Timeseries results)) = Inr mt"
    using m by (rule queryIngesterStream_maps_timeseries)
  have "map_of mt ((keyOf \<circ> Labels_ts) series) = Some series"
    using streaming_timeseries_map(1)[OF m] r assms(2) by (rule range_values_lookup)
  then have "lookup_samples mt (keyOf (Labels_ts series)) = slice_elems (Samples series)"
    by (simp add: lookup_samples_def)
  then show ?thesis
    using fold_addTimeseries_lookup_samples[OF f, of "keyOf (Labels_ts series)"]
    by (simp add: contributed_samples_def merge_lists_is_merge_by)
qed

lemma contributed_samples_cong:
  "mset results' = mset results \<Longrightarrow>
   mset (contributed_samples keyOf results' k) = mset (contributed_samples keyOf results k)"
  using mset_concat_map_cong[of results' results Timeseries]
  by (simp add: contributed_samples_def)

lemma lookup_nil_Nil [simp]: "lookup_nil [] k"
  by (simp add: lookup_nil_def)

lemma addTimeseries_nil:
  assumes "addTimeseries keyOf m s = Inr m'"
  shows "lookup_nil m' k =
     (lookup_nil m k \<and> (keyOf (Labels_ts s) = k \<longrightarrow> Samples s = None))"
proof (cases "map_of m (keyOf (Labels_ts s))")
  case None
  then have "m' = AList.update (keyOf (Labels_ts s)) \<lparr>Labels_ts = Labels_ts s, Samples = Samples s\<rparr> m"
    using assms by (simp add: addTimeseries_def Let_def)
  then show ?thesis using None by (auto simp: lookup_nil_def update_conv')
next
  case (Some e)
  show ?thesis
  proof (cases "Samples e")
    case None
    then have "m' = AList.update (keyOf (Labels_ts s))
        (e\<lparr>Labels_ts := Labels_ts s, Samples := Samples s\<rparr>) m"
      using assms Some by (simp add: addTimeseries_def Let_def)
    then show ?thesis using Some None by (auto simp: lookup_nil_def update_conv')
  next
    case a: (Some a)
    then have "m' = AList.update (keyOf (Labels_ts s))
        (e\<lparr>Labels_ts := Labels_ts s, Samples := Some (merge_lists a (slice_elems (Samples s)))\<rparr>) m"
      using assms Some by (simp add: addTimeseries_def Let_def mergeSamples_merge_lists)
    then show ?thesis using Some a by (auto simp: lookup_nil_def update_conv')
  qed
qed

lemma fold_addTimeseries_nil:
  "fold_panic (addTimeseries keyOf) m ss = Inr m' \<Longrightarrow>
   lookup_nil m' k =
     (lookup_nil m k \<and> (\<forall>s \<in> set (filter (\<lambda>s. keyOf (Labels_ts s) = k) ss). Samples s = None))"
proof (induction ss arbitrary: m)
  case Nil
  then show ?case by simp
next
  case (Cons s ss)
  obtain m1 where m1: "addTimeseries keyOf m s = Inr m1"
    using addTimeseries_Inr by blast
  have "fold_panic (addTimeseries keyOf) m1 ss = Inr m'" using Cons.prems m1 by simp
  then have "lookup_nil m' k =
     (lookup_nil m1 k \<and> (\<forall>s \<in> set (filter (\<lambda>s. keyOf (Labels_ts s) = k) ss). Samples s = None))"
    by (rule Cons.IH)
  then show ?case unfolding addTimeseries_nil[OF m1] by auto
qed

lemma response_samples_nil:
  assumes "queryIngesterStream keyOf results (Inr resp)" and "series \<in> set (Timeseries resp)"
  shows "(Samples series = None) =
     (\<forall>s \<in> set (filter (\<lambda>s. keyOf (Labels_ts s) = keyOf (Labels_ts series))
                  (concat (map Timeseries results))). Samples s = None)"
proof -
  obtain mc mt where m: "queryIngesterStream_maps keyOf results = Inr (mc, mt)"
    and r: "range_values mt (Timeseries resp)"
    using assms(1) unfolding queryIngesterStream_Inr_iff by blast
  have f: "fold_panic (addTimeseries keyOf) [] (concat (map Timeseries results)) = Inr mt"
    using m by (rule queryIngesterStream_maps_timeseries)
  have "map_of mt ((keyOf \<circ> Labels_ts) series) = Some series"
    using streaming_timeseries_map(1)[OF m] r assms(2) by (rule range_values_lookup)
  then have "lookup_nil mt (keyOf (Labels_ts series)) = (Samples series = None)"
    by (simp add: lookup_nil_def)
  then show ?thesis
    using fold_addTimeseries_nil[OF f, of "keyOf (Labels_ts series)"] by simp
qed

lemma slice_eqI:
  "(x = None) = (y = None) \<Longrightarrow> slice_elems x = slice_elems y \<Longrightarrow> x = y"
  by (cases x; cases y) (simp_all add: slice_elems_def)

lemma response_chunk_lists:
  assumes "queryIngesterStream keyOf results (Inr resp)" and "series \<in> set (Chunkseries resp)"
  shows "Chunks series = concat (contributed_chunks keyOf results (keyOf (Labels series)))"
  using response_chunks[OF assms] by (simp add: contributed_chunks_def)

lemma contributed_chunks_cong:
  "mset results' = mset results \<Longrightarrow>
   mset (contributed_chunks keyOf results' k) = mset (contributed_chunks keyOf results k)"
  using mset_concat_map_cong[of results' results Chunkseries]
  by (simp add: contributed_chunks_def)

subsection \<open>Values of the merged streams\<close>

lemma foldl_foldl_concat:
  "foldl (\<lambda>m result. foldl f m result) m results = foldl f m (concat results)"
  by (induction results arbitrary: m) simp_all

lemma queryIngesters_map_concat:
  "queryIngesters_map fingerprint mergeSampleSets results =
     foldl (addSampleStream fingerprint mergeSampleSets) [] (concat results)"
  by (simp add: queryIngesters_map_def foldl_foldl_concat)

lemma lookup_values_Nil [simp]: "lookup_values [] k = []"
  by (simp add: lookup_values_def)

lemma addSampleStream_values:
  "lookup_values (addSampleStream fingerprint mergeSampleSets m ss) k =
     (if fingerprint (Metric ss) = k then mergeSampleSets (lookup_values m k) (Values ss)
      else lookup_values m k)"
  by (simp add: addSampleStream_def Let_def lookup_values_def update_conv' split: option.splits)

lemma foldl_addSampleStream_values:
  "lookup_values (foldl (addSampleStream fingerprint mergeSampleSets) m result) k =
     foldl mergeSampleSets (lookup_values m k)
       (map Values (filter (\<lambda>ss. fingerprint (Metric ss) = k) result))"
  by (induction result arbitrary: m) (simp_all add: addSampleStream_values)

lemma addSampleStream_metric:
  "Metric ` snd ` set (addSampleStream fingerprint mergeSampleSets m ss) \<subseteq>
     insert (Metric ss) (Metric ` snd ` set m)"
proof (cases "map_of m (fingerprint (Metric ss))")
  case None
  let ?v = "\<lparr>Metric = Metric ss, Values = mergeSampleSets [] (Values ss)\<rparr>"
  have "addSampleStream fingerprint mergeSampleSets m ss = AList.update (fingerprint (Metric ss)) ?v m"
    using None by (simp add: addSampleStream_def Let_def)
  moreover have "Metric ` snd ` set (AList.update (fingerprint (Metric ss)) ?v m) \<subseteq>
      Metric ` insert ?v (snd ` set m)"
    by (rule image_mono) (rule update_values_subset)
  ultimately show ?thesis by simp
next
  case (Some mss)
  let ?v = "mss\<lparr>Values := mergeSampleSets (Values mss) (Values ss)\<rparr>"
  have "mss \<in> snd ` set m" using Some by (force dest: map_of_SomeD)
  then have "Metric mss \<in> Metric ` snd ` set m" by (rule imageI)
  then have v: "Metric ?v \<in> Metric ` snd ` set m" by simp
  have a: "addSampleStream fingerprint mergeSampleSets m ss =
      AList.update (fingerprint (Metric ss)) ?v m"
    using Some by (simp add: addSampleStream_def Let_def)
  have "Metric ` snd ` set (AList.update (fingerprint (Metric ss)) ?v m) \<subseteq>
      Metric ` insert ?v (snd ` set m)"
    by (rule image_mono) (rule update_values_subset)
  also have "\<dots> = insert (Metric ?v) (Metric ` snd ` set m)" by (rule image_insert)
  also have "\<dots> = Metric ` snd ` set m" using v by (rule insert_absorb)
  finally show ?thesis unfolding a by (rule subset_trans) (rule subset_insertI)
qed

lemma foldl_addSampleStream_metric:
  "Metric ` snd ` set (foldl (addSampleStream fingerprint mergeSampleSets) m result) \<subseteq>
     Metric ` snd ` set m \<union> Metric ` set result"
proof (induction result arbitrary: m)
  case Nil
  show ?case by simp
next
  case (Cons ss result)
  have "Metric ` snd ` set (foldl (addSampleStream fingerprint mergeSampleSets)
          (addSampleStream fingerprint mergeSampleSets m ss) result) \<subseteq>
      Metric ` snd ` set (addSampleStream fingerprint mergeSampleSets m ss) \<union> Metric ` set result"
    by (rule Cons.IH)
  also have "\<dots> \<subseteq> insert (Metric ss) (Metric ` snd ` set m) \<union> Metric ` set result"
    using addSampleStream_metric[of fingerprint mergeSampleSets m ss] by blast
  finally show ?case by auto
qed

lemma matrix_metric:
  assumes "queryIngesters fingerprint mergeSampleSets batch matrix" and "e \<in> set matrix"
  shows "Metric e \<in> Metric ` set (concat batch)"
proof -
  have r: "range_values (queryIngesters_map fingerprint mergeSampleSets batch) matrix"
    using assms(1) by (simp add: queryIngesters_def)
  have "Metric ` snd ` set (queryIngesters_map fingerprint mergeSampleSets batch) \<subseteq>
      Metric ` set (concat batch)"
    unfolding queryIngesters_map_concat
    using foldl_addSampleStream_metric[of fingerprint mergeSampleSets "[]" "concat batch"] by simp
  moreover have "e \<in> snd ` set (queryIngesters_map fingerprint mergeSampleSets batch)"
    using range_values_set[OF r] assms(2) by simp
  ultimately show ?thesis by blast
qed

lemma matrix_values:
  assumes "queryIngesters fingerprint mergeSampleSets batch matrix" and "e \<in> set matrix"
  shows "Values e =
     foldl mergeSampleSets [] (contributed_values fingerprint batch (fingerprint (Metric e)))"
proof -
  have r: "range_values (queryIngesters_map fingerprint mergeSampleSets batch) matrix"
    using assms(1) by (simp add: queryIngesters_def)
  have "map_of (queryIngesters_map fingerprint mergeSampleSets batch) ((fingerprint \<circ> Metric) e) = Some e"
    using queryIngesters_map_keyed r assms(2) by (rule range_values_lookup)
  then have "lookup_values (queryIngesters_map fingerprint mergeSampleSets batch)
      (fingerprint (Metric e)) = Values e"
    by (simp add: lookup_values_def)
  then show ?thesis
    by (simp add: queryIngesters_map_concat foldl_addSampleStream_values contributed_values_def)
qed

lemma contributed_values_cong:
  "mset batch' = mset batch \<Longrightarrow>
   mset (contributed_values fingerprint batch' fp) = mset (contributed_values fingerprint batch fp)"
  using mset_concat_cong[of batch' batch]
  by (simp add: contributed_values_def)

section \<open>Claims about the aggregation\<close>

lemmas stream_eval =
  queryIngesterStream_def queryIngesterStream_maps_def addResponse_def addChunkseries_def
  addTimeseries_def range_values_def slice_elems_def example_keyOf_def example_chunk_def
  example_response_def

lemmas batch_eval =
  queryIngesters_def queryIngesters_map_def addSampleStream_def range_values_def
  example_fingerprint_def example_mergeSampleSets_def example_stream_def

text \<open>
  C6 (independence of the arrival order), as stated, fails. Two replicas answer for the
  same series, one with the chunk starting at 0 and the sample \<open>(100, 1.0)\<close>, the other
  with the chunk starting at 10 and the sample \<open>(100, 2.0)\<close>. In one order the merged
  series holds the chunks \<open>[0, 10]\<close> and the sample \<open>(100, 1.0)\<close>; in the other order it holds
  the chunks \<open>[10, 0]\<close> and the sample \<open>(100, 2.0)\<close>, and the first response cannot be
  produced.
\<close>

theorem queryIngesterStream_order_counterexample:
  "queryIngesterStream example_keyOf
     [example_response ''a'' [example_chunk 0] [sample 100 f64_1],
      example_response ''a'' [example_chunk 10] [sample 100 f64_2]]
     (Inr \<lparr>Chunkseries = [\<lparr>Labels = [(''job'', ''a'')], Chunks = [example_chunk 0, example_chunk 10]\<rparr>],
           Timeseries = [\<lparr>Labels_ts = [(''job'', ''a'')], Samples = Some [sample 100 f64_1]\<rparr>]\<rparr>) \<and>
   queryIngesterStream example_keyOf
     [example_response ''a'' [example_chunk 10] [sample 100 f64_2],
      example_response ''a'' [example_chunk 0] [sample 100 f64_1]]
     (Inr \<lparr>Chunkseries = [\<lparr>Labels = [(''job'', ''a'')], Chunks = [example_chunk 10, example_chunk 0]\<rparr>],
           Timeseries = [\<lparr>Labels_ts = [(''job'', ''a'')], Samples = Some [sample 100 f64_2]\<rparr>]\<rparr>) \<and>
   \<not> queryIngesterStream example_keyOf
     [example_response ''a'' [example_chunk 10] [sample 100 f64_2],
      example_response ''a'' [example_chunk 0] [sample 100 f64_1]]
     (Inr \<lparr>Chunkseries = [\<lparr>Labels = [(''job'', ''a'')], Chunks = [example_chunk 0, example_chunk 10]\<rparr>],
           Timeseries = [\<lparr>Labels_ts = [(''job'', ''a'')], Samples = Some [sample 100 f64_1]\<rparr>]\<rparr>)"
  by (simp add: stream_eval mergeSamples_eval)

text \<open>
  The order of the entries is not even fixed by the input: the response is filled by
  ranging over the maps, and with two series both orders are possible.
\<close>

lemma queryIngesterStream_entry_order_example:
  "queryIngesterStream example_keyOf
     [example_response ''a'' [example_chunk 0] [], example_response ''b'' [example_chunk 0] []]
     (Inr \<lparr>Chunkseries = [\<lparr>Labels = [(''job'', ''a'')], Chunks = [example_chunk 0]\<rparr>,
                           \<lparr>Labels = [(''job'', ''b'')], Chunks = [example_chunk 0]\<rparr>],
           Timeseries = [\<lparr>Labels_ts = [(''job'', ''a'')], Samples = Some []\<rparr>,
                         \<lparr>Labels_ts = [(''job'', ''b'')], Samples = Some []\<rparr>]\<rparr>) \<and>
   queryIngesterStream example_keyOf
     [example_response ''a'' [example_chunk 0] [], example_response ''b'' [example_chunk 0] []]
     (Inr \<lparr>Chunkseries = [\<lparr>Labels = [(''job'', ''b'')], Chunks = [example_chunk 0]\<rparr>,
                           \<lparr>Labels = [(''job'', ''a'')], Chunks = [example_chunk 0]\<rparr>],
           Timeseries = [\<lparr>Labels_ts = [(''job'', ''a'')], Samples = Some []\<rparr>,
                         \<lparr>Labels_ts = [(''job'', ''b'')], Samples = Some []\<rparr>]\<rparr>)"
  by (simp add: stream_eval mergeSamples_eval)

text \<open>
  The labels of a merged series are those of one of the series with its key: the first
  to arrive in the batch path, the last in the streaming path. Where two label sets
  have the same fingerprint, they depend on the order of arrival.
\<close>

lemma queryIngesters_collision_example:
  "example_fingerprint [(''job'', ''a'')] = example_fingerprint [(''job'', ''b'')] \<and>
   queryIngesters example_fingerprint (merge_by fst)
     [[example_stream ''a'' [(100, f64_1)]], [example_stream ''b'' [(200, f64_2)]]]
     [\<lparr>Metric = [(''job'', ''a'')], Values = [(100, f64_1), (200, f64_2)]\<rparr>] \<and>
   queryIngesters example_fingerprint (merge_by fst)
     [[example_stream ''b'' [(200, f64_2)]], [example_stream ''a'' [(100, f64_1)]]]
     [\<lparr>Metric = [(''job'', ''b'')], Values = [(100, f64_1), (200, f64_2)]\<rparr>]"
  by (simp add: batch_eval)

text \<open>
  C6, amended. When the results of the replicas are presented in another order, both
  aggregations still return, and the merged result has the same series identities
  (fingerprints in the batch path, keys of the chunk series and of the time series in the
  streaming path) and the same number of entries. For an identity, the merged series has the same labels when no other
  label set present has the same key; its chunks are the same up to their order: its
  chunks are the same lists of chunks concatenated in another order; its samples have the
  same timestamps in the same order, and at every position it holds the same sample,
  unless the replicas disagree at the timestamp of that position; so it is the same
  series of samples when the replicas agree (a \<^verbatim>\<open>nil\<close> slice in both results or in none). For the batch path the statements
  on the samples are for \<open>mergeSampleSets = merge_by timestampOf\<close>.
\<close>

theorem merge_order_independence:
  assumes "mset batch' = mset batch" and "mset results' = mset results"
  shows
    "(\<exists>matrix'. queryIngesters fingerprint mergeSampleSets batch' matrix') \<and>
     (\<exists>resp'. queryIngesterStream keyOf results' (Inr resp')) \<and>
     (\<forall>matrix matrix'.
        queryIngesters fingerprint mergeSampleSets batch matrix \<and>
        queryIngesters fingerprint mergeSampleSets batch' matrix' \<longrightarrow>
          (fingerprint \<circ> Metric) ` set matrix' = (fingerprint \<circ> Metric) ` set matrix \<and>
          length matrix' = length matrix \<and>
          (\<forall>e \<in> set matrix. \<forall>e' \<in> set matrix'.
             fingerprint (Metric e') = fingerprint (Metric e) \<longrightarrow>
               (inj_on fingerprint (Metric ` set (concat batch)) \<longrightarrow> Metric e' = Metric e) \<and>
               (mergeSampleSets = merge_by timestampOf \<longrightarrow>
                  map timestampOf (Values e') = map timestampOf (Values e) \<and>
                  (\<forall>i < length (Values e).
                     agree_at timestampOf
                       (contributed_values fingerprint batch (fingerprint (Metric e)))
                       (timestampOf (Values e ! i)) \<longrightarrow>
                     Values e' ! i = Values e ! i) \<and>
                  (agree timestampOf (contributed_values fingerprint batch (fingerprint (Metric e))) \<longrightarrow>
                     Values e' = Values e)))) \<and>
     (\<forall>resp resp'.
        queryIngesterStream keyOf results (Inr resp) \<and> queryIngesterStream keyOf results' (Inr resp') \<longrightarrow>
          (keyOf \<circ> Labels) ` set (Chunkseries resp') = (keyOf \<circ> Labels) ` set (Chunkseries resp) \<and>
          (keyOf \<circ> Labels_ts) ` set (Timeseries resp') = (keyOf \<circ> Labels_ts) ` set (Timeseries resp) \<and>
          length (Chunkseries resp') = length (Chunkseries resp) \<and>
          length (Timeseries resp') = length (Timeseries resp) \<and>
          (\<forall>s \<in> set (Chunkseries resp). \<forall>s' \<in> set (Chunkseries resp').
             keyOf (Labels s') = keyOf (Labels s) \<longrightarrow>
               mset (Chunks s') = mset (Chunks s) \<and>
               Chunks s = concat (contributed_chunks keyOf results (keyOf (Labels s))) \<and>
               Chunks s' = concat (contributed_chunks keyOf results' (keyOf (Labels s))) \<and>
               mset (contributed_chunks keyOf results' (keyOf (Labels s))) =
                 mset (contributed_chunks keyOf results (keyOf (Labels s))) \<and>
               (inj_on keyOf (Labels ` set (concat (map Chunkseries results))) \<longrightarrow>
                  Labels s' = Labels s)) \<and>
          (\<forall>s \<in> set (Timeseries resp). \<forall>s' \<in> set (Timeseries resp').
             keyOf (Labels_ts s') = keyOf (Labels_ts s) \<longrightarrow>
               map TimestampMs (slice_elems (Samples s')) =
                 map TimestampMs (slice_elems (Samples s)) \<and>
               (\<forall>i < length (slice_elems (Samples s)).
                  agree_at TimestampMs
                    (contributed_samples keyOf results (keyOf (Labels_ts s)))
                    (TimestampMs (slice_elems (Samples s) ! i)) \<longrightarrow>
                  slice_elems (Samples s') ! i = slice_elems (Samples s) ! i) \<and>
               (Samples s' = None) = (Samples s = None) \<and>
               (agree TimestampMs (contributed_samples keyOf results (keyOf (Labels_ts s))) \<longrightarrow>
                  Samples s' = Samples s) \<and>
               (inj_on keyOf (Labels_ts ` set (concat (map Timeseries results))) \<longrightarrow>
                  Labels_ts s' = Labels_ts s)))"
proof -
  have E1: "\<exists>matrix'. queryIngesters fingerprint mergeSampleSets batch' matrix'"
    by (rule queryIngesters_returns)
  have E2: "\<exists>resp'. queryIngesterStream keyOf results' (Inr resp')"
    by (rule queryIngesterStream_returns)
  have cb: "set (concat batch') = set (concat batch)"
    using mset_concat_cong[OF assms(1)] by (rule mset_eq_setD)
  have cc: "set (concat (map Chunkseries results')) = set (concat (map Chunkseries results))"
    using assms(2) by (rule set_concat_map_cong)
  have ct: "set (concat (map Timeseries results')) = set (concat (map Timeseries results))"
    using assms(2) by (rule set_concat_map_cong)
  have B: "\<forall>matrix matrix'.
        queryIngesters fingerprint mergeSampleSets batch matrix \<and>
        queryIngesters fingerprint mergeSampleSets batch' matrix' \<longrightarrow>
          (fingerprint \<circ> Metric) ` set matrix' = (fingerprint \<circ> Metric) ` set matrix \<and>
          length matrix' = length matrix \<and>
          (\<forall>e \<in> set matrix. \<forall>e' \<in> set matrix'.
             fingerprint (Metric e') = fingerprint (Metric e) \<longrightarrow>
               (inj_on fingerprint (Metric ` set (concat batch)) \<longrightarrow> Metric e' = Metric e) \<and>
               (mergeSampleSets = merge_by timestampOf \<longrightarrow>
                  map timestampOf (Values e') = map timestampOf (Values e) \<and>
                  (\<forall>i < length (Values e).
                     agree_at timestampOf
                       (contributed_values fingerprint batch (fingerprint (Metric e)))
                       (timestampOf (Values e ! i)) \<longrightarrow>
                     Values e' ! i = Values e ! i) \<and>
                  (agree timestampOf (contributed_values fingerprint batch (fingerprint (Metric e))) \<longrightarrow>
                     Values e' = Values e)))"
  proof (intro allI impI conjI ballI)
    fix matrix matrix'
    assume a: "queryIngesters fingerprint mergeSampleSets batch matrix \<and>
        queryIngesters fingerprint mergeSampleSets batch' matrix'"
    show k: "(fingerprint \<circ> Metric) ` set matrix' = (fingerprint \<circ> Metric) ` set matrix"
      using a cb matrix_keys(1)[of fingerprint mergeSampleSets batch matrix]
        matrix_keys(1)[of fingerprint mergeSampleSets batch' matrix'] by simp
    have "distinct (map (fingerprint \<circ> Metric) matrix')"
      using a matrix_keys(2)[of fingerprint mergeSampleSets batch' matrix'] by blast
    moreover have "distinct (map (fingerprint \<circ> Metric) matrix)"
      using a matrix_keys(2)[of fingerprint mergeSampleSets batch matrix] by blast
    ultimately show "length matrix' = length matrix"
      using k by (rule distinct_keys_length)
  next
    fix matrix matrix' e e'
    assume a: "queryIngesters fingerprint mergeSampleSets batch matrix \<and>
        queryIngesters fingerprint mergeSampleSets batch' matrix'"
      and e: "e \<in> set matrix" and e': "e' \<in> set matrix'"
      and k: "fingerprint (Metric e') = fingerprint (Metric e)"
      and i: "inj_on fingerprint (Metric ` set (concat batch))"
    have "Metric e \<in> Metric ` set (concat batch)"
      using a e matrix_metric[of fingerprint mergeSampleSets batch matrix e] by simp
    moreover have "Metric e' \<in> Metric ` set (concat batch)"
      using a e' matrix_metric[of fingerprint mergeSampleSets batch' matrix' e'] cb by simp
    ultimately show "Metric e' = Metric e" using inj_onD[OF i k] by simp
  next
    fix matrix matrix' e e'
    assume a: "queryIngesters fingerprint mergeSampleSets batch matrix \<and>
        queryIngesters fingerprint mergeSampleSets batch' matrix'"
      and e: "e \<in> set matrix" and e': "e' \<in> set matrix'"
      and k: "fingerprint (Metric e') = fingerprint (Metric e)"
      and mg: "mergeSampleSets = merge_by timestampOf"
    let ?C = "contributed_values fingerprint batch (fingerprint (Metric e))"
    let ?C' = "contributed_values fingerprint batch' (fingerprint (Metric e))"
    have v: "Values e = foldl (merge_by timestampOf) [] ?C"
      using a e matrix_values[of fingerprint mergeSampleSets batch matrix e] mg by simp
    have v': "Values e' = foldl (merge_by timestampOf) [] ?C'"
      using a e' matrix_values[of fingerprint mergeSampleSets batch' matrix' e'] mg k by simp
    have m: "mset ?C' = mset ?C" using assms(1) by (rule contributed_values_cong)
    show "map timestampOf (Values e') = map timestampOf (Values e)"
      unfolding v v' using m by (rule foldl_merge_by_rearranged(1))
    show "Values e' ! i = Values e ! i"
      if "i < length (Values e)" and "agree_at timestampOf ?C (timestampOf (Values e ! i))" for i
      using that unfolding v v' by (rule foldl_merge_by_rearranged(2)[OF m])
    show "Values e' = Values e" if "agree timestampOf ?C"
      unfolding v v' using m that by (rule foldl_merge_by_rearranged(3))
  qed
  have S: "\<forall>resp resp'.
        queryIngesterStream keyOf results (Inr resp) \<and> queryIngesterStream keyOf results' (Inr resp') \<longrightarrow>
          (keyOf \<circ> Labels) ` set (Chunkseries resp') = (keyOf \<circ> Labels) ` set (Chunkseries resp) \<and>
          (keyOf \<circ> Labels_ts) ` set (Timeseries resp') = (keyOf \<circ> Labels_ts) ` set (Timeseries resp) \<and>
          length (Chunkseries resp') = length (Chunkseries resp) \<and>
          length (Timeseries resp') = length (Timeseries resp) \<and>
          (\<forall>s \<in> set (Chunkseries resp). \<forall>s' \<in> set (Chunkseries resp').
             keyOf (Labels s') = keyOf (Labels s) \<longrightarrow>
               mset (Chunks s') = mset (Chunks s) \<and>
               Chunks s = concat (contributed_chunks keyOf results (keyOf (Labels s))) \<and>
               Chunks s' = concat (contributed_chunks keyOf results' (keyOf (Labels s))) \<and>
               mset (contributed_chunks keyOf results' (keyOf (Labels s))) =
                 mset (contributed_chunks keyOf results (keyOf (Labels s))) \<and>
               (inj_on keyOf (Labels ` set (concat (map Chunkseries results))) \<longrightarrow>
                  Labels s' = Labels s)) \<and>
          (\<forall>s \<in> set (Timeseries resp). \<forall>s' \<in> set (Timeseries resp').
             keyOf (Labels_ts s') = keyOf (Labels_ts s) \<longrightarrow>
               map TimestampMs (slice_elems (Samples s')) =
                 map TimestampMs (slice_elems (Samples s)) \<and>
               (\<forall>i < length (slice_elems (Samples s)).
                  agree_at TimestampMs
                    (contributed_samples keyOf results (keyOf (Labels_ts s)))
                    (TimestampMs (slice_elems (Samples s) ! i)) \<longrightarrow>
                  slice_elems (Samples s') ! i = slice_elems (Samples s) ! i) \<and>
               (Samples s' = None) = (Samples s = None) \<and>
               (agree TimestampMs (contributed_samples keyOf results (keyOf (Labels_ts s))) \<longrightarrow>
                  Samples s' = Samples s) \<and>
               (inj_on keyOf (Labels_ts ` set (concat (map Timeseries results))) \<longrightarrow>
                  Labels_ts s' = Labels_ts s))"
  proof (intro allI impI conjI ballI)
    fix resp resp'
    assume a: "queryIngesterStream keyOf results (Inr resp) \<and> queryIngesterStream keyOf results' (Inr resp')"
    show kc: "(keyOf \<circ> Labels) ` set (Chunkseries resp') = (keyOf \<circ> Labels) ` set (Chunkseries resp)"
      using a cc response_keys(1)[of keyOf results resp] response_keys(1)[of keyOf results' resp']
      by simp
    show kt: "(keyOf \<circ> Labels_ts) ` set (Timeseries resp') = (keyOf \<circ> Labels_ts) ` set (Timeseries resp)"
      using a ct response_keys(2)[of keyOf results resp] response_keys(2)[of keyOf results' resp']
      by simp
    have "distinct (map (keyOf \<circ> Labels) (Chunkseries resp'))"
      using a response_keys(3)[of keyOf results' resp'] by blast
    moreover have "distinct (map (keyOf \<circ> Labels) (Chunkseries resp))"
      using a response_keys(3)[of keyOf results resp] by blast
    ultimately show "length (Chunkseries resp') = length (Chunkseries resp)"
      using kc by (rule distinct_keys_length)
    have "distinct (map (keyOf \<circ> Labels_ts) (Timeseries resp'))"
      using a response_keys(4)[of keyOf results' resp'] by blast
    moreover have "distinct (map (keyOf \<circ> Labels_ts) (Timeseries resp))"
      using a response_keys(4)[of keyOf results resp] by blast
    ultimately show "length (Timeseries resp') = length (Timeseries resp)"
      using kt by (rule distinct_keys_length)
  next
    fix resp resp' s s'
    assume a: "queryIngesterStream keyOf results (Inr resp) \<and> queryIngesterStream keyOf results' (Inr resp')"
      and s: "s \<in> set (Chunkseries resp)" and s': "s' \<in> set (Chunkseries resp')"
      and k: "keyOf (Labels s') = keyOf (Labels s)"
    have m: "mset (concat (map Chunkseries results')) = mset (concat (map Chunkseries results))"
      using assms(2) by (rule mset_concat_map_cong)
    have "Chunks s = concat (map Chunks (filter (\<lambda>u. keyOf (Labels u) = keyOf (Labels s))
         (concat (map Chunkseries results))))"
      using a s response_chunks[of keyOf results resp s] by simp
    moreover have "Chunks s' = concat (map Chunks (filter (\<lambda>u. keyOf (Labels u) = keyOf (Labels s))
         (concat (map Chunkseries results'))))"
      using a s' k response_chunks[of keyOf results' resp' s'] by simp
    ultimately show "mset (Chunks s') = mset (Chunks s)"
      using mset_chunks_cong[OF m] by simp
    show "Chunks s = concat (contributed_chunks keyOf results (keyOf (Labels s)))"
      using a s response_chunk_lists[of keyOf results resp s] by simp
    show "Chunks s' = concat (contributed_chunks keyOf results' (keyOf (Labels s)))"
      using a s' k response_chunk_lists[of keyOf results' resp' s'] by simp
    show "mset (contributed_chunks keyOf results' (keyOf (Labels s))) =
        mset (contributed_chunks keyOf results (keyOf (Labels s)))"
      using assms(2) by (rule contributed_chunks_cong)
  next
    fix resp resp' s s'
    assume a: "queryIngesterStream keyOf results (Inr resp) \<and> queryIngesterStream keyOf results' (Inr resp')"
      and s: "s \<in> set (Chunkseries resp)" and s': "s' \<in> set (Chunkseries resp')"
      and k: "keyOf (Labels s') = keyOf (Labels s)"
      and i: "inj_on keyOf (Labels ` set (concat (map Chunkseries results)))"
    have "Labels s \<in> Labels ` set (concat (map Chunkseries results))"
      using a s response_chunk_labels[of keyOf results resp s] by simp
    moreover have "Labels s' \<in> Labels ` set (concat (map Chunkseries results))"
      using a s' response_chunk_labels[of keyOf results' resp' s'] cc by simp
    ultimately show "Labels s' = Labels s" using inj_onD[OF i k] by simp
  next
    fix resp resp' s s'
    assume a: "queryIngesterStream keyOf results (Inr resp) \<and> queryIngesterStream keyOf results' (Inr resp')"
      and s: "s \<in> set (Timeseries resp)" and s': "s' \<in> set (Timeseries resp')"
      and k: "keyOf (Labels_ts s') = keyOf (Labels_ts s)"
    let ?C = "contributed_samples keyOf results (keyOf (Labels_ts s))"
    let ?C' = "contributed_samples keyOf results' (keyOf (Labels_ts s))"
    have v: "slice_elems (Samples s) = foldl (merge_by TimestampMs) [] ?C"
      using a s response_samples[of keyOf results resp s] by simp
    have v': "slice_elems (Samples s') = foldl (merge_by TimestampMs) [] ?C'"
      using a s' response_samples[of keyOf results' resp' s'] k by simp
    have m: "mset ?C' = mset ?C" using assms(2) by (rule contributed_samples_cong)
    show "map TimestampMs (slice_elems (Samples s')) = map TimestampMs (slice_elems (Samples s))"
      unfolding v v' using m by (rule foldl_merge_by_rearranged(1))
    show "slice_elems (Samples s') ! i = slice_elems (Samples s) ! i"
      if "i < length (slice_elems (Samples s))"
        and "agree_at TimestampMs ?C (TimestampMs (slice_elems (Samples s) ! i))" for i
      using that unfolding v v' by (rule foldl_merge_by_rearranged(2)[OF m])
    have "set (filter (\<lambda>u. keyOf (Labels_ts u) = keyOf (Labels_ts s)) (concat (map Timeseries results'))) =
        set (filter (\<lambda>u. keyOf (Labels_ts u) = keyOf (Labels_ts s)) (concat (map Timeseries results)))"
      unfolding set_filter ct ..
    then show n: "(Samples s' = None) = (Samples s = None)"
      using a s s' k response_samples_nil[of keyOf results resp s]
        response_samples_nil[of keyOf results' resp' s'] by simp
    show "Samples s' = Samples s" if "agree TimestampMs ?C"
    proof (rule slice_eqI[OF n])
      show "slice_elems (Samples s') = slice_elems (Samples s)"
        unfolding v v' using m that by (rule foldl_merge_by_rearranged(3))
    qed
  next
    fix resp resp' s s'
    assume a: "queryIngesterStream keyOf results (Inr resp) \<and> queryIngesterStream keyOf results' (Inr resp')"
      and s: "s \<in> set (Timeseries resp)" and s': "s' \<in> set (Timeseries resp')"
      and k: "keyOf (Labels_ts s') = keyOf (Labels_ts s)"
      and i: "inj_on keyOf (Labels_ts ` set (concat (map Timeseries results)))"
    have "Labels_ts s \<in> Labels_ts ` set (concat (map Timeseries results))"
      using a s response_timeseries_labels[of keyOf results resp s] by simp
    moreover have "Labels_ts s' \<in> Labels_ts ` set (concat (map Timeseries results))"
      using a s' response_timeseries_labels[of keyOf results' resp' s'] ct by simp
    ultimately show "Labels_ts s' = Labels_ts s" using inj_onD[OF i k] by simp
  qed
  show ?thesis by (rule conjI[OF E1 conjI[OF E2 conjI[OF B S]]])
qed

text \<open>
  The witness presents the results of two replicas in both orders. They agree on the
  series \<open>a\<close> (the end-to-end example of the specification) and disagree on the second
  series at the timestamp \<open>200\<close> only.
\<close>

theorem merge_order_independence_witness:
  "mset [[example_stream ''a'' [(200, f64_2), (300, f64_3)], example_stream ''bb'' [(200, f64_3), (300, f64_3)]],
         [example_stream ''a'' [(100, f64_1), (200, f64_2)], example_stream ''bb'' [(100, f64_1), (200, f64_2)]]] =
     mset [[example_stream ''a'' [(100, f64_1), (200, f64_2)], example_stream ''bb'' [(100, f64_1), (200, f64_2)]],
           [example_stream ''a'' [(200, f64_2), (300, f64_3)], example_stream ''bb'' [(200, f64_3), (300, f64_3)]]] \<and>
   queryIngesters example_fingerprint (merge_by fst)
     [[example_stream ''a'' [(100, f64_1), (200, f64_2)], example_stream ''bb'' [(100, f64_1), (200, f64_2)]],
      [example_stream ''a'' [(200, f64_2), (300, f64_3)], example_stream ''bb'' [(200, f64_3), (300, f64_3)]]]
     [example_stream ''a'' [(100, f64_1), (200, f64_2), (300, f64_3)],
      example_stream ''bb'' [(100, f64_1), (200, f64_2), (300, f64_3)]] \<and>
   queryIngesters example_fingerprint (merge_by fst)
     [[example_stream ''a'' [(200, f64_2), (300, f64_3)], example_stream ''bb'' [(200, f64_3), (300, f64_3)]],
      [example_stream ''a'' [(100, f64_1), (200, f64_2)], example_stream ''bb'' [(100, f64_1), (200, f64_2)]]]
     [example_stream ''bb'' [(100, f64_1), (200, f64_3), (300, f64_3)],
      example_stream ''a'' [(100, f64_1), (200, f64_2), (300, f64_3)]] \<and>
   inj_on example_fingerprint (Metric ` set (concat
     [[example_stream ''a'' [(100, f64_1), (200, f64_2)], example_stream ''bb'' [(100, f64_1), (200, f64_2)]],
      [example_stream ''a'' [(200, f64_2), (300, f64_3)], example_stream ''bb'' [(200, f64_3), (300, f64_3)]]])) \<and>
   agree fst (contributed_values example_fingerprint
     [[example_stream ''a'' [(100, f64_1), (200, f64_2)], example_stream ''bb'' [(100, f64_1), (200, f64_2)]],
      [example_stream ''a'' [(200, f64_2), (300, f64_3)], example_stream ''bb'' [(200, f64_3), (300, f64_3)]]]
     (example_fingerprint [(''job'', ''a'')])) \<and>
   agree_at fst (contributed_values example_fingerprint
     [[example_stream ''a'' [(100, f64_1), (200, f64_2)], example_stream ''bb'' [(100, f64_1), (200, f64_2)]],
      [example_stream ''a'' [(200, f64_2), (300, f64_3)], example_stream ''bb'' [(200, f64_3), (300, f64_3)]]]
     (example_fingerprint [(''job'', ''bb'')])) 300 \<and>
   Metric (example_stream ''a'' [(100, f64_1), (200, f64_2), (300, f64_3)]) = [(''job'', ''a'')] \<and>
   Values (example_stream ''a'' [(100, f64_1), (200, f64_2), (300, f64_3)]) =
     [(100, f64_1), (200, f64_2), (300, f64_3)] \<and>
   map fst (Values (example_stream ''bb'' [(100, f64_1), (200, f64_3), (300, f64_3)])) = [100, 200, 300] \<and>
   Values (example_stream ''bb'' [(100, f64_1), (200, f64_3), (300, f64_3)]) ! 2 = (300, f64_3) \<and>
   mset [example_response ''b'' [example_chunk 10] [sample 200 f64_3, sample 300 f64_3],
         example_response ''a'' [example_chunk 10] [sample 200 f64_2, sample 300 f64_3],
         example_response ''b'' [example_chunk 0] [sample 100 f64_1, sample 200 f64_2],
         example_response ''a'' [example_chunk 0] [sample 100 f64_1, sample 200 f64_2]] =
     mset [example_response ''a'' [example_chunk 0] [sample 100 f64_1, sample 200 f64_2],
           example_response ''b'' [example_chunk 0] [sample 100 f64_1, sample 200 f64_2],
           example_response ''a'' [example_chunk 10] [sample 200 f64_2, sample 300 f64_3],
           example_response ''b'' [example_chunk 10] [sample 200 f64_3, sample 300 f64_3]] \<and>
   queryIngesterStream example_keyOf
     [example_response ''a'' [example_chunk 0] [sample 100 f64_1, sample 200 f64_2],
      example_response ''b'' [example_chunk 0] [sample 100 f64_1, sample 200 f64_2],
      example_response ''a'' [example_chunk 10] [sample 200 f64_2, sample 300 f64_3],
      example_response ''b'' [example_chunk 10] [sample 200 f64_3, sample 300 f64_3]]
     (Inr \<lparr>Chunkseries = [\<lparr>Labels = [(''job'', ''a'')], Chunks = [example_chunk 0, example_chunk 10]\<rparr>,
                           \<lparr>Labels = [(''job'', ''b'')], Chunks = [example_chunk 0, example_chunk 10]\<rparr>],
           Timeseries = [\<lparr>Labels_ts = [(''job'', ''a'')],
                            Samples = Some [sample 100 f64_1, sample 200 f64_2, sample 300 f64_3]\<rparr>,
                         \<lparr>Labels_ts = [(''job'', ''b'')],
                            Samples = Some [sample 100 f64_1, sample 200 f64_2, sample 300 f64_3]\<rparr>]\<rparr>) \<and>
   queryIngesterStream example_keyOf
     [example_response ''b'' [example_chunk 10] [sample 200 f64_3, sample 300 f64_3],
      example_response ''a'' [example_chunk 10] [sample 200 f64_2, sample 300 f64_3],
      example_response ''b'' [example_chunk 0] [sample 100 f64_1, sample 200 f64_2],
      example_response ''a'' [example_chunk 0] [sample 100 f64_1, sample 200 f64_2]]
     (Inr \<lparr>Chunkseries = [\<lparr>Labels = [(''job'', ''b'')], Chunks = [example_chunk 10, example_chunk 0]\<rparr>,
                           \<lparr>Labels = [(''job'', ''a'')], Chunks = [example_chunk 10, example_chunk 0]\<rparr>],
           Timeseries = [\<lparr>Labels_ts = [(''job'', ''b'')],
                            Samples = Some [sample 100 f64_1, sample 200 f64_3, sample 300 f64_3]\<rparr>,
                         \<lparr>Labels_ts = [(''job'', ''a'')],
                            Samples = Some [sample 100 f64_1, sample 200 f64_2, sample 300 f64_3]\<rparr>]\<rparr>) \<and>
   inj_on example_keyOf (Labels ` set (concat (map Chunkseries
     [example_response ''a'' [example_chunk 0] [sample 100 f64_1, sample 200 f64_2],
      example_response ''b'' [example_chunk 0] [sample 100 f64_1, sample 200 f64_2],
      example_response ''a'' [example_chunk 10] [sample 200 f64_2, sample 300 f64_3],
      example_response ''b'' [example_chunk 10] [sample 200 f64_3, sample 300 f64_3]]))) \<and>
   agree TimestampMs (contributed_samples example_keyOf
     [example_response ''a'' [example_chunk 0] [sample 100 f64_1, sample 200 f64_2],
      example_response ''b'' [example_chunk 0] [sample 100 f64_1, sample 200 f64_2],
      example_response ''a'' [example_chunk 10] [sample 200 f64_2, sample 300 f64_3],
      example_response ''b'' [example_chunk 10] [sample 200 f64_3, sample 300 f64_3]]
     (example_keyOf [(''job'', ''a'')])) \<and>
   agree_at TimestampMs (contributed_samples example_keyOf
     [example_response ''a'' [example_chunk 0] [sample 100 f64_1, sample 200 f64_2],
      example_response ''b'' [example_chunk 0] [sample 100 f64_1, sample 200 f64_2],
      example_response ''a'' [example_chunk 10] [sample 200 f64_2, sample 300 f64_3],
      example_response ''b'' [example_chunk 10] [sample 200 f64_3, sample 300 f64_3]]
     (example_keyOf [(''job'', ''b'')])) 100 \<and>
   mset [example_chunk 10, example_chunk 0] = mset [example_chunk 0, example_chunk 10] \<and>
   Labels \<lparr>Labels = [(''job'', ''a'')], Chunks = [example_chunk 10, example_chunk 0]\<rparr> = [(''job'', ''a'')] \<and>
   slice_elems (Samples \<lparr>Labels_ts = [(''job'', ''a'')],
       Samples = Some [sample 100 f64_1, sample 200 f64_2, sample 300 f64_3]\<rparr>) =
     [sample 100 f64_1, sample 200 f64_2, sample 300 f64_3] \<and>
   map TimestampMs (slice_elems (Samples \<lparr>Labels_ts = [(''job'', ''b'')],
       Samples = Some [sample 100 f64_1, sample 200 f64_3, sample 300 f64_3]\<rparr>)) = [100, 200, 300] \<and>
   slice_elems (Samples \<lparr>Labels_ts = [(''job'', ''b'')],
       Samples = Some [sample 100 f64_1, sample 200 f64_3, sample 300 f64_3]\<rparr>) ! 0 = sample 100 f64_1"
proof -
  let ?batch = "[[example_stream ''a'' [(100, f64_1), (200, f64_2)], example_stream ''bb'' [(100, f64_1), (200, f64_2)]],
      [example_stream ''a'' [(200, f64_2), (300, f64_3)], example_stream ''bb'' [(200, f64_3), (300, f64_3)]]]"
  let ?batch' = "[[example_stream ''a'' [(200, f64_2), (300, f64_3)], example_stream ''bb'' [(200, f64_3), (300, f64_3)]],
         [example_stream ''a'' [(100, f64_1), (200, f64_2)], example_stream ''bb'' [(100, f64_1), (200, f64_2)]]]"
  let ?ea = "example_stream ''a'' [(100, f64_1), (200, f64_2), (300, f64_3)]"
  let ?eb = "example_stream ''bb'' [(100, f64_1), (200, f64_2), (300, f64_3)]"
  let ?eb' = "example_stream ''bb'' [(100, f64_1), (200, f64_3), (300, f64_3)]"
  let ?matrix = "[?ea, ?eb]"
  let ?matrix' = "[?eb', ?ea]"
  let ?results = "[example_response ''a'' [example_chunk 0] [sample 100 f64_1, sample 200 f64_2],
      example_response ''b'' [example_chunk 0] [sample 100 f64_1, sample 200 f64_2],
      example_response ''a'' [example_chunk 10] [sample 200 f64_2, sample 300 f64_3],
      example_response ''b'' [example_chunk 10] [sample 200 f64_3, sample 300 f64_3]]"
  let ?results' = "[example_response ''b'' [example_chunk 10] [sample 200 f64_3, sample 300 f64_3],
         example_response ''a'' [example_chunk 10] [sample 200 f64_2, sample 300 f64_3],
         example_response ''b'' [example_chunk 0] [sample 100 f64_1, sample 200 f64_2],
         example_response ''a'' [example_chunk 0] [sample 100 f64_1, sample 200 f64_2]]"
  let ?ca = "\<lparr>Labels = [(''job'', ''a'')], Chunks = [example_chunk 0, example_chunk 10]\<rparr>"
  let ?cb = "\<lparr>Labels = [(''job'', ''b'')], Chunks = [example_chunk 0, example_chunk 10]\<rparr>"
  let ?ca' = "\<lparr>Labels = [(''job'', ''a'')], Chunks = [example_chunk 10, example_chunk 0]\<rparr>"
  let ?cb' = "\<lparr>Labels = [(''job'', ''b'')], Chunks = [example_chunk 10, example_chunk 0]\<rparr>"
  let ?ta = "\<lparr>Labels_ts = [(''job'', ''a'')],
      Samples = Some [sample 100 f64_1, sample 200 f64_2, sample 300 f64_3]\<rparr>"
  let ?tb = "\<lparr>Labels_ts = [(''job'', ''b'')],
      Samples = Some [sample 100 f64_1, sample 200 f64_2, sample 300 f64_3]\<rparr>"
  let ?tb' = "\<lparr>Labels_ts = [(''job'', ''b'')],
      Samples = Some [sample 100 f64_1, sample 200 f64_3, sample 300 f64_3]\<rparr>"
  let ?resp = "\<lparr>Chunkseries = [?ca, ?cb], Timeseries = [?ta, ?tb]\<rparr>"
  let ?resp' = "\<lparr>Chunkseries = [?cb', ?ca'], Timeseries = [?tb', ?ta]\<rparr>"
  have pb: "mset ?batch' = mset ?batch" by simp
  have pr: "mset ?results' = mset ?results" by (simp add: example_response_def)
  have b: "queryIngesters example_fingerprint (merge_by fst) ?batch ?matrix"
    by (simp add: batch_eval)
  have b': "queryIngesters example_fingerprint (merge_by fst) ?batch' ?matrix'"
    by (simp add: batch_eval)
  have q: "queryIngesterStream example_keyOf ?results (Inr ?resp)"
    by (simp add: stream_eval mergeSamples_eval)
  have q': "queryIngesterStream example_keyOf ?results' (Inr ?resp')"
    by (simp add: stream_eval mergeSamples_eval)
  note th = merge_order_independence[where fingerprint = example_fingerprint
      and mergeSampleSets = "merge_by fst" and timestampOf = fst and keyOf = example_keyOf, OF pb pr]
  note B = th[THEN conjunct2, THEN conjunct2, THEN conjunct1, THEN spec, THEN spec, THEN mp,
      OF conjI[OF b b'], THEN conjunct2, THEN conjunct2]
  note S = th[THEN conjunct2, THEN conjunct2, THEN conjunct2, THEN spec, THEN spec, THEN mp,
      OF conjI[OF q q'], THEN conjunct2, THEN conjunct2, THEN conjunct2, THEN conjunct2]
  have ea: "?ea \<in> set ?matrix" and eb: "?eb \<in> set ?matrix"
    and ea': "?ea \<in> set ?matrix'" and eb': "?eb' \<in> set ?matrix'"
    by simp_all
  have kb: "example_fingerprint (Metric ?eb') = example_fingerprint (Metric ?eb)"
    by (simp add: example_stream_def)
  note Ba = B[THEN bspec, OF ea, THEN bspec, OF ea', THEN mp, OF refl]
  note Bb = B[THEN bspec, OF eb, THEN bspec, OF eb', THEN mp, OF kb]
  have ib: "inj_on example_fingerprint (Metric ` set (concat ?batch))"
    by (auto simp: inj_on_def example_stream_def example_fingerprint_def)
  have ma: "Metric ?ea = [(''job'', ''a'')]" by (simp add: example_stream_def)
  have mb: "Metric ?eb = [(''job'', ''bb'')]" by (simp add: example_stream_def)
  have ga: "agree fst (contributed_values example_fingerprint ?batch
      (example_fingerprint (Metric ?ea)))"
    by (simp add: agree_def contributed_values_def example_stream_def example_fingerprint_def)
  have gb: "agree_at fst (contributed_values example_fingerprint ?batch
      (example_fingerprint (Metric ?eb))) (fst (Values ?eb ! 2))"
    by (simp add: agree_at_def contributed_values_def example_stream_def example_fingerprint_def)
  have lb: "2 < length (Values ?eb)" by (simp add: example_stream_def)
  note Ma = Ba[THEN conjunct1, THEN mp, OF ib]
  note Va = Ba[THEN conjunct2, THEN mp, OF refl, THEN conjunct2, THEN conjunct2, THEN mp, OF ga]
  note Tb = Bb[THEN conjunct2, THEN mp, OF refl, THEN conjunct1]
  note Vb = Bb[THEN conjunct2, THEN mp, OF refl, THEN conjunct2, THEN conjunct1, THEN spec,
      THEN mp, OF lb, THEN mp, OF gb]
  have r1: "Metric ?ea = [(''job'', ''a'')]" using Ma ma by simp
  have r2: "Values ?ea = [(100, f64_1), (200, f64_2), (300, f64_3)]"
    using Va by (simp add: example_stream_def)
  have r3: "map fst (Values ?eb') = [100, 200, 300]"
    using Tb by (simp add: example_stream_def)
  have r4: "Values ?eb' ! 2 = (300, f64_3)"
    using Vb by (simp add: example_stream_def)
  have ca: "?ca \<in> set (Chunkseries ?resp)" and ca': "?ca' \<in> set (Chunkseries ?resp')"
    and ta: "?ta \<in> set (Timeseries ?resp)" and tb: "?tb \<in> set (Timeseries ?resp)"
    and ta': "?ta \<in> set (Timeseries ?resp')" and tb': "?tb' \<in> set (Timeseries ?resp')"
    by simp_all
  have kc: "example_keyOf (Labels ?ca') = example_keyOf (Labels ?ca)" by simp
  have kt: "example_keyOf (Labels_ts ?tb') = example_keyOf (Labels_ts ?tb)" by simp
  note Sc = S[THEN conjunct1, THEN bspec, OF ca, THEN bspec, OF ca', THEN mp, OF kc]
  note Sa = S[THEN conjunct2, THEN bspec, OF ta, THEN bspec, OF ta', THEN mp, OF refl]
  note Sb = S[THEN conjunct2, THEN bspec, OF tb, THEN bspec, OF tb', THEN mp, OF kt]
  have ic: "inj_on example_keyOf (Labels ` set (concat (map Chunkseries ?results)))"
    by (auto simp: inj_on_def example_response_def example_keyOf_def)
  have gs: "agree TimestampMs (contributed_samples example_keyOf ?results
      (example_keyOf (Labels_ts ?ta)))"
    by (simp add: agree_def contributed_samples_def example_response_def example_keyOf_def
        slice_elems_def)
  have gt: "agree_at TimestampMs (contributed_samples example_keyOf ?results
      (example_keyOf (Labels_ts ?tb))) (TimestampMs (slice_elems (Samples ?tb) ! 0))"
    by (simp add: agree_at_def contributed_samples_def example_response_def example_keyOf_def
        slice_elems_def)
  have lt: "0 < length (slice_elems (Samples ?tb))" by (simp add: slice_elems_def)
  note Mc = Sc[THEN conjunct1]
  note Lc = Sc[THEN conjunct2, THEN conjunct2, THEN conjunct2, THEN conjunct2, THEN mp, OF ic]
  note Vs = Sa[THEN conjunct2, THEN conjunct2, THEN conjunct2, THEN conjunct1, THEN mp, OF gs]
  note Ts = Sb[THEN conjunct1]
  note Ps = Sb[THEN conjunct2, THEN conjunct1, THEN spec, THEN mp, OF lt, THEN mp, OF gt]
  have s1: "mset [example_chunk 10, example_chunk 0] = mset [example_chunk 0, example_chunk 10]"
    using Mc by simp
  have s2: "Labels ?ca' = [(''job'', ''a'')]" using Lc by simp
  have s3: "slice_elems (Samples ?ta) = [sample 100 f64_1, sample 200 f64_2, sample 300 f64_3]"
    using Vs by (simp add: slice_elems_def)
  have s4: "map TimestampMs (slice_elems (Samples ?tb')) = [100, 200, 300]"
    using Ts by (simp add: slice_elems_def)
  have s5: "slice_elems (Samples ?tb') ! 0 = sample 100 f64_1"
    using Ps by (simp add: slice_elems_def)
  have ga': "agree fst (contributed_values example_fingerprint ?batch
      (example_fingerprint [(''job'', ''a'')]))"
    using ga by (simp only: ma)
  have gb': "agree_at fst (contributed_values example_fingerprint ?batch
      (example_fingerprint [(''job'', ''bb'')])) 300"
    using gb by (simp add: example_stream_def)
  have gs': "agree TimestampMs (contributed_samples example_keyOf ?results
      (example_keyOf [(''job'', ''a'')]))"
    using gs by simp
  have gt': "agree_at TimestampMs (contributed_samples example_keyOf ?results
      (example_keyOf [(''job'', ''b'')])) 100"
    using gt by (simp add: slice_elems_def)
  show ?thesis
    by (intro conjI) (fact pb b b' ib ga' gb' r1 r2 r3 r4 pr q q' ic gs' gt' s1 s2 s3 s4 s5)+
qed

text \<open>
  C7 (chunks are concatenated). \<^verbatim>\<open>queryIngesterStream\<close> returns a response, and in every
  response it can return, the chunk series are merged by key: every series a replica
  contributed has an entry with its key, every entry has the key of a contributed
  series, and no two entries share a key. The chunks of an entry are the chunk lists of
  all the series of the replicas with the same key, appended in the order of arrival,
  none dropped and none changed: their number is the sum of the lengths of the
  contributions.
\<close>

theorem queryIngesterStream_chunks_concatenated:
  "(\<exists>resp. queryIngesterStream keyOf results (Inr resp)) \<and>
   (\<forall>resp. queryIngesterStream keyOf results (Inr resp) \<longrightarrow>
      (\<forall>s \<in> set (concat (map Chunkseries results)).
         \<exists>series \<in> set (Chunkseries resp). keyOf (Labels series) = keyOf (Labels s)) \<and>
      (\<forall>series \<in> set (Chunkseries resp).
         \<exists>s \<in> set (concat (map Chunkseries results)). keyOf (Labels s) = keyOf (Labels series)) \<and>
      distinct (map (keyOf \<circ> Labels) (Chunkseries resp)) \<and>
      (\<forall>series \<in> set (Chunkseries resp).
         Chunks series =
           concat (map Chunks (filter (\<lambda>s. keyOf (Labels s) = keyOf (Labels series))
             (concat (map Chunkseries results)))) \<and>
         length (Chunks series) =
           sum_list (map (length \<circ> Chunks) (filter (\<lambda>s. keyOf (Labels s) = keyOf (Labels series))
             (concat (map Chunkseries results))))))"
proof (intro conjI allI impI ballI)
  show "\<exists>resp. queryIngesterStream keyOf results (Inr resp)" by (rule queryIngesterStream_returns)
next
  fix resp s
  assume q: "queryIngesterStream keyOf results (Inr resp)"
    and s: "s \<in> set (concat (map Chunkseries results))"
  have "(keyOf \<circ> Labels) s \<in> (keyOf \<circ> Labels) ` set (Chunkseries resp)"
    unfolding response_keys(1)[OF q] using s by (rule imageI)
  then obtain series where "series \<in> set (Chunkseries resp)"
    and "(keyOf \<circ> Labels) s = (keyOf \<circ> Labels) series" by (rule imageE)
  then show "\<exists>series \<in> set (Chunkseries resp). keyOf (Labels series) = keyOf (Labels s)"
    by (intro bexI[of _ series]) simp_all
next
  fix resp series
  assume q: "queryIngesterStream keyOf results (Inr resp)"
    and e: "series \<in> set (Chunkseries resp)"
  have "(keyOf \<circ> Labels) series \<in> (keyOf \<circ> Labels) ` set (concat (map Chunkseries results))"
    unfolding response_keys(1)[OF q, symmetric] using e by (rule imageI)
  then obtain s where "s \<in> set (concat (map Chunkseries results))"
    and "(keyOf \<circ> Labels) series = (keyOf \<circ> Labels) s" by (rule imageE)
  then show "\<exists>s \<in> set (concat (map Chunkseries results)). keyOf (Labels s) = keyOf (Labels series)"
    by (intro bexI[of _ s]) simp_all
next
  fix resp
  assume "queryIngesterStream keyOf results (Inr resp)"
  then show "distinct (map (keyOf \<circ> Labels) (Chunkseries resp))" by (rule response_keys(3))
next
  fix resp series
  assume q: "queryIngesterStream keyOf results (Inr resp)"
    and e: "series \<in> set (Chunkseries resp)"
  show c: "Chunks series =
        concat (map Chunks (filter (\<lambda>s. keyOf (Labels s) = keyOf (Labels series))
          (concat (map Chunkseries results))))"
    using q e by (rule response_chunks)
  show "length (Chunks series) =
        sum_list (map (length \<circ> Chunks) (filter (\<lambda>s. keyOf (Labels s) = keyOf (Labels series))
          (concat (map Chunkseries results))))"
    by (subst c) (simp add: length_concat comp_def)
qed

text \<open>
  In the witness the series \<open>job=a\<close> comes from two replicas, which both hold the chunk
  starting at 10: it is in the result twice. The response has one entry for \<open>job=a\<close> and
  one for \<open>job=b\<close>.
\<close>

theorem queryIngesterStream_chunks_concatenated_witness:
  "queryIngesterStream example_keyOf
     [example_response ''a'' [example_chunk 0, example_chunk 10] [],
      example_response ''b'' [example_chunk 0] [],
      example_response ''a'' [example_chunk 10, example_chunk 20] []]
     (Inr \<lparr>Chunkseries =
             [\<lparr>Labels = [(''job'', ''b'')], Chunks = [example_chunk 0]\<rparr>,
              \<lparr>Labels = [(''job'', ''a'')],
               Chunks = [example_chunk 0, example_chunk 10, example_chunk 10, example_chunk 20]\<rparr>],
           Timeseries =
             [\<lparr>Labels_ts = [(''job'', ''a'')], Samples = Some []\<rparr>,
              \<lparr>Labels_ts = [(''job'', ''b'')], Samples = Some []\<rparr>]\<rparr>) \<and>
   map (example_keyOf \<circ> Labels)
     [\<lparr>Labels = [(''job'', ''b'')], Chunks = [example_chunk 0]\<rparr>,
      \<lparr>Labels = [(''job'', ''a'')],
       Chunks = [example_chunk 0, example_chunk 10, example_chunk 10, example_chunk 20]\<rparr>] =
     [''job=b;'', ''job=a;''] \<and>
   length [example_chunk 0, example_chunk 10, example_chunk 10, example_chunk 20] = 2 + 2"
proof -
  let ?results = "[example_response ''a'' [example_chunk 0, example_chunk 10] [],
      example_response ''b'' [example_chunk 0] [],
      example_response ''a'' [example_chunk 10, example_chunk 20] []]"
  let ?series = "\<lparr>Labels = [(''job'', ''a'')],
               Chunks = [example_chunk 0, example_chunk 10, example_chunk 10, example_chunk 20]\<rparr>"
  let ?resp = "\<lparr>Chunkseries = [\<lparr>Labels = [(''job'', ''b'')], Chunks = [example_chunk 0]\<rparr>, ?series],
           Timeseries =
             [\<lparr>Labels_ts = [(''job'', ''a'')], Samples = Some []\<rparr>,
              \<lparr>Labels_ts = [(''job'', ''b'')], Samples = Some []\<rparr>]\<rparr>"
  have q: "queryIngesterStream example_keyOf ?results (Inr ?resp)"
    by (simp add: stream_eval mergeSamples_eval)
  have s: "?series \<in> set (Chunkseries ?resp)" by simp
  note th = queryIngesterStream_chunks_concatenated[of example_keyOf ?results]
  have "distinct (map (example_keyOf \<circ> Labels) (Chunkseries ?resp))"
    using th q by blast
  moreover have "length (Chunks ?series) =
        sum_list (map (length \<circ> Chunks) (filter (\<lambda>s. example_keyOf (Labels s) = example_keyOf (Labels ?series))
          (concat (map Chunkseries ?results))))"
    using th q s by blast
  then have "length [example_chunk 0, example_chunk 10, example_chunk 10, example_chunk 20] = 2 + 2"
    by (simp add: example_response_def example_keyOf_def)
  ultimately show ?thesis using q by (simp add: example_keyOf_def)
qed

text \<open>
  C8 (an identity appears once). Both aggregations return, and whatever they return holds
  no two sample streams with the same fingerprint (batch), no two chunk-series entries
  and no two time-series entries with the same key (streaming).
\<close>

theorem merged_identities_unique:
  "(\<exists>matrix. queryIngesters fingerprint mergeSampleSets batch matrix) \<and>
   (\<forall>matrix. queryIngesters fingerprint mergeSampleSets batch matrix \<longrightarrow>
      distinct (map (fingerprint \<circ> Metric) matrix)) \<and>
   (\<exists>resp. queryIngesterStream keyOf results (Inr resp)) \<and>
   (\<forall>resp. queryIngesterStream keyOf results (Inr resp) \<longrightarrow>
      distinct (map (keyOf \<circ> Labels) (Chunkseries resp)) \<and>
      distinct (map (keyOf \<circ> Labels_ts) (Timeseries resp)))"
proof (intro conjI allI impI)
  show "\<exists>matrix. queryIngesters fingerprint mergeSampleSets batch matrix"
    by (rule queryIngesters_returns)
  show "\<exists>resp. queryIngesterStream keyOf results (Inr resp)"
    by (rule queryIngesterStream_returns)
next
  fix matrix
  assume "queryIngesters fingerprint mergeSampleSets batch matrix"
  then show "distinct (map (fingerprint \<circ> Metric) matrix)" by (rule matrix_keys(2))
next
  fix resp
  assume q: "queryIngesterStream keyOf results (Inr resp)"
  show "distinct (map (keyOf \<circ> Labels) (Chunkseries resp))" using q by (rule response_keys(3))
  show "distinct (map (keyOf \<circ> Labels_ts) (Timeseries resp))" using q by (rule response_keys(4))
qed

theorem merged_identities_unique_witness:
  "queryIngesters example_fingerprint example_mergeSampleSets
     [[example_stream ''a'' [(100, f64_1)]],
      [example_stream ''bb'' [(100, f64_3)], example_stream ''a'' [(200, f64_2)]]]
     [example_stream ''bb'' [(100, f64_3)], example_stream ''a'' [(100, f64_1), (200, f64_2)]] \<and>
   map (example_fingerprint \<circ> Metric)
     [example_stream ''bb'' [(100, f64_3)], example_stream ''a'' [(100, f64_1), (200, f64_2)]] = [5, 4] \<and>
   queryIngesterStream example_keyOf
     [example_response ''a'' [example_chunk 0] [sample 100 f64_1],
      example_response ''b'' [example_chunk 0] [],
      example_response ''a'' [example_chunk 10] [sample 200 f64_2]]
     (Inr \<lparr>Chunkseries =
             [\<lparr>Labels = [(''job'', ''a'')], Chunks = [example_chunk 0, example_chunk 10]\<rparr>,
              \<lparr>Labels = [(''job'', ''b'')], Chunks = [example_chunk 0]\<rparr>],
           Timeseries =
             [\<lparr>Labels_ts = [(''job'', ''b'')], Samples = Some []\<rparr>,
              \<lparr>Labels_ts = [(''job'', ''a'')],
               Samples = Some [sample 100 f64_1, sample 200 f64_2]\<rparr>]\<rparr>) \<and>
   map example_keyOf [[(''job'', ''a'')], [(''job'', ''b'')]] = [''job=a;'', ''job=b;'']"
proof -
  let ?batch = "[[example_stream ''a'' [(100, f64_1)]],
      [example_stream ''bb'' [(100, f64_3)], example_stream ''a'' [(200, f64_2)]]]"
  let ?matrix = "[example_stream ''bb'' [(100, f64_3)], example_stream ''a'' [(100, f64_1), (200, f64_2)]]"
  let ?results = "[example_response ''a'' [example_chunk 0] [sample 100 f64_1],
      example_response ''b'' [example_chunk 0] [],
      example_response ''a'' [example_chunk 10] [sample 200 f64_2]]"
  let ?resp = "\<lparr>Chunkseries =
             [\<lparr>Labels = [(''job'', ''a'')], Chunks = [example_chunk 0, example_chunk 10]\<rparr>,
              \<lparr>Labels = [(''job'', ''b'')], Chunks = [example_chunk 0]\<rparr>],
           Timeseries =
             [\<lparr>Labels_ts = [(''job'', ''b'')], Samples = Some []\<rparr>,
              \<lparr>Labels_ts = [(''job'', ''a'')],
               Samples = Some [sample 100 f64_1, sample 200 f64_2]\<rparr>]\<rparr>"
  have b: "queryIngesters example_fingerprint example_mergeSampleSets ?batch ?matrix"
    by (simp add: batch_eval)
  have q: "queryIngesterStream example_keyOf ?results (Inr ?resp)"
    by (simp add: stream_eval mergeSamples_eval)
  have "distinct (map (example_fingerprint \<circ> Metric) ?matrix)"
    and "distinct (map (example_keyOf \<circ> Labels) (Chunkseries ?resp))"
    using merged_identities_unique[of example_fingerprint example_mergeSampleSets ?batch example_keyOf ?results]
      b q by blast+
  then show ?thesis using b q by (simp add: batch_eval stream_eval)
qed

end
